theory Spec2Isabelle
  imports Main
begin

section \<open>Data model\<close>

text \<open>
  Exceptions of the Python program are values. Failures raised inside the external
  libraries (dataset registry, tokenizer, model, scorers) are whatever the library
  chose to raise; \<open>LibraryError\<close> carries the ones that are not a builtin exception.
\<close>

datatype error =
  TypeError | KeyError | ValueError | IndexError | AttributeError | RuntimeError
  | LibraryError string

text \<open>
  A cell of the raw table: a Python \<open>str\<close>, an integer, or a missing value
  (\<open>None\<close>, \<open>NaN\<close>, \<open>pd.NA\<close>). The elements of a \<open>string\<close> stand for the characters
  of the Python string, so \<open>length\<close> is Python's \<open>len\<close>.
\<close>

datatype cell = Str string | Num int | NA

text \<open>
  A pandas DataFrame, column by column: the row labels (\<open>index\<close>) and the labelled
  columns in their order. The frames of this pipeline come from a dataset whose column
  names are unique and whose columns all have one value per row (\<open>wf_frame\<close>).
\<close>

record 'a frame =
  index :: "int list"
  cols :: "(string \<times> 'a list) list"

definition column_names :: "'a frame \<Rightarrow> string list" where
  "column_names d = map fst (cols d)"

definition wf_frame :: "'a frame \<Rightarrow> bool" where
  "wf_frame d \<longleftrightarrow>
     distinct (column_names d) \<and> list_all (\<lambda>cv. length (snd cv) = length (index d)) (cols d)"

text \<open>\<open>df.shape\<close>: (number of rows, number of columns).\<close>

definition shape :: "'a frame \<Rightarrow> nat \<times> nat" where
  "shape d = (length (index d), length (cols d))"

text \<open>\<open>df.drop(columns=labels)\<close>: \<open>KeyError\<close> when a label is not a column.\<close>

definition drop_columns :: "string list \<Rightarrow> 'a frame \<Rightarrow> error + 'a frame" where
  "drop_columns labels d =
     (if list_ex (\<lambda>l. l \<notin> set (column_names d)) labels then Inl KeyError
      else Inr (d\<lparr>cols := filter (\<lambda>cv. fst cv \<notin> set labels) (cols d)\<rparr>))"

text \<open>\<open>df.rename(columns=mapping)\<close>: labels outside the mapping are kept, a key of the
  mapping that is no column is ignored.\<close>

definition rename_label :: "(string \<times> string) list \<Rightarrow> string \<Rightarrow> string" where
  "rename_label mapping c = (case map_of mapping c of Some c' \<Rightarrow> c' | None \<Rightarrow> c)"

definition rename_columns :: "(string \<times> string) list \<Rightarrow> 'a frame \<Rightarrow> 'a frame" where
  "rename_columns mapping d =
     d\<lparr>cols := map (\<lambda>cv. (rename_label mapping (fst cv), snd cv)) (cols d)\<rparr>"

section \<open>RawDataPreprocessor\<close>

text \<open>
  The object holds the raw table and, once \<open>transform\<close> has run, the clean one. The
  \<open>report_time\<close> decorator of some methods only measures and prints their running
  time; it is left out everywhere.
\<close>

record 'a preprocessor =
  raw_data :: "'a frame"
  data :: "'a frame option"

definition transform :: "'a preprocessor \<Rightarrow> error + 'a preprocessor" where
  "transform p =
     (case drop_columns [''input'', ''text''] (raw_data p) of
        Inl e \<Rightarrow> Inl e
      | Inr d \<Rightarrow>
          Inr (p\<lparr>data := Some (rename_columns
                 [(''instruction'', ''question''), (''output'', ''target'')] d)\<rparr>))"

text \<open>A small raw table: the second row has an empty cell, the third repeats the first.\<close>

definition example_raw :: "cell frame" where
  "example_raw =
     \<lparr>index = [0, 1, 2, 3],
      cols = [(''instruction'',
                 [Str ''Explain X'', Str ''Say hi'', Str ''Explain X'', Str ''Sum 1 and 2'']),
              (''input'', [Str ''ctx'', Str [], Str ''ctx'', Str ''n'']),
              (''output'', [Str ''X is Y'', Str ''hi'', Str ''X is Y'', Str ''3'']),
              (''text'', [Str ''t1'', Str ''t2'', Str ''t1'', Str ''t4''])]\<rparr>"

definition example_preprocessor :: "cell preprocessor" where
  "example_preprocessor = \<lparr>raw_data = example_raw, data = None\<rparr>"

section \<open>Sequencing of fallible steps\<close>

text \<open>A raised exception ends the computation: the first \<open>Inl\<close> is the result.\<close>

definition and_then :: "error + 'a \<Rightarrow> ('a \<Rightarrow> error + 'b) \<Rightarrow> error + 'b" where
  "and_then r f = (case r of Inl e \<Rightarrow> Inl e | Inr x \<Rightarrow> f x)"

text \<open>A list comprehension over fallible items: evaluated left to right, the first
  exception wins.\<close>

fun collect :: "(error + 'a) list \<Rightarrow> error + 'a list" where
  "collect [] = Inr []"
| "collect (r # rs) =
     (case r of Inl e \<Rightarrow> Inl e
      | Inr x \<Rightarrow> (case collect rs of Inl e \<Rightarrow> Inl e | Inr xs \<Rightarrow> Inr (x # xs)))"

section \<open>Frame access\<close>

text \<open>\<open>df[c]\<close>: the values of column \<open>c\<close>, \<open>KeyError\<close> when there is none. This is
  \<open>df[c]\<close> on a frame with unique column labels (\<open>wf_frame\<close>); with a repeated label
  pandas answers with a frame of all the columns of that label, which is not modelled.\<close>

definition getcol :: "'a frame \<Rightarrow> string \<Rightarrow> error + 'a list" where
  "getcol d c = (case map_of (cols d) c of None \<Rightarrow> Inl KeyError | Some vs \<Rightarrow> Inr vs)"

text \<open>\<open>df.iloc[i]\<close>: the row at position \<open>i\<close> as a labelled series; a negative position
  counts from the end, a position out of range raises \<open>IndexError\<close>.\<close>

definition iloc :: "'a frame \<Rightarrow> int \<Rightarrow> error + (string \<times> 'a) list" where
  "iloc d i =
     (let n = int (length (index d)); j = (if i < 0 then n + i else i)
      in if 0 \<le> j \<and> j < n then Inr (map (\<lambda>cv. (fst cv, snd cv ! nat j)) (cols d))
         else Inl IndexError)"

text \<open>\<open>series[c]\<close> on a row with unique labels; with a repeated label pandas answers
  with the series of all the cells of that label, which is not modelled.\<close>

definition series_get :: "(string \<times> 'a) list \<Rightarrow> string \<Rightarrow> error + 'a" where
  "series_get s c = (case map_of s c of None \<Rightarrow> Inl KeyError | Some v \<Rightarrow> Inr v)"

text \<open>\<open>df[c] = values\<close> with a list: the list must have one value per row; an existing
  column keeps its place, a new one goes last. (pandas re-indexes a frame without rows
  when it is given a non-empty list; \<open>infer_dataset\<close> below never does that, as a
  dataset without rows yields no prediction.)\<close>

definition setitem :: "'a frame \<Rightarrow> string \<Rightarrow> 'a list \<Rightarrow> error + 'a frame" where
  "setitem d c vals =
     (if length vals \<noteq> length (index d) then Inl ValueError
      else if c \<in> set (column_names d)
        then Inr (d\<lparr>cols := map (\<lambda>cv. if fst cv = c then (c, vals) else cv) (cols d)\<rparr>)
        else Inr (d\<lparr>cols := cols d @ [(c, vals)]\<rparr>))"

text \<open>\<open>df[[c1, c2, ...]]\<close>: the listed columns in the listed order.\<close>

definition select_columns :: "'a frame \<Rightarrow> string list \<Rightarrow> error + 'a frame" where
  "select_columns d labels =
     and_then (collect (map (\<lambda>l. and_then (getcol d l) (\<lambda>vs. Inr (l, vs))) labels))
          (\<lambda>cs. Inr (d\<lparr>cols := cs\<rparr>))"

section \<open>TaskDataset\<close>

datatype 'a task_dataset = TaskDataset "'a frame"

text \<open>The \<open>data\<close> property.\<close>

fun dataset_data :: "'a task_dataset \<Rightarrow> 'a frame" where
  "dataset_data (TaskDataset d) = d"

text \<open>\<open>__len__\<close>: \<open>len(df)\<close> is the number of rows.\<close>

fun dataset_len :: "'a task_dataset \<Rightarrow> nat" where
  "dataset_len (TaskDataset d) = length (index d)"

text \<open>\<open>__getitem__\<close>: the tuple (question, target) of the row, as the sequence of its
  components.\<close>

fun getitem :: "'a task_dataset \<Rightarrow> int \<Rightarrow> error + 'a list" where
  "getitem (TaskDataset d) i =
     and_then (iloc d i) (\<lambda>row1.
     and_then (series_get row1 ''question'') (\<lambda>question.
     and_then (iloc d i) (\<lambda>row2.
     and_then (series_get row2 ''target'') (\<lambda>target.
     Inr [question, target]))))"

text \<open>A clean table of text cells, as the adapter holds it.\<close>

definition example_clean :: "string frame" where
  "example_clean =
     \<lparr>index = [0, 1, 2],
      cols = [(''question'', [''Explain X'', ''Say hi'', ''Explain X'']),
              (''target'', [''X is Y'', ''hi there'', ''X is Y''])]\<rparr>"

section \<open>LLMPipeline\<close>

text \<open>
  The model and the tokenizer are loaded from an external library. The pipeline holds
  them as the operations the code calls: the tokenizer applied to a sequence of texts
  with its \<open>padding\<close> and \<open>truncation\<close> flags, the \<open>generate\<close> method of the model
  applied to the tokens with \<open>max_length\<close> (\<open>None\<close> when no model is loaded), and
  \<open>batch_decode\<close> with its \<open>skip_special_tokens\<close> flag. Each may raise. The
  argument \<open>return_tensors\<close> only fixes the container of the tokens (type \<open>'tok\<close>).
  A sample is a tuple of strings, held as the list of its components.
\<close>

record ('tok, 'out) pipeline =
  model_name :: string
  dataset :: "string task_dataset"
  max_length :: int
  batch_size :: int
  device :: string
  model :: "('tok \<Rightarrow> int \<Rightarrow> error + 'out) option"
  tokenizer :: "string list \<Rightarrow> bool \<Rightarrow> bool \<Rightarrow> error + 'tok"
  batch_decode :: "'out \<Rightarrow> bool \<Rightarrow> error + string list"

text \<open>\<open>prediction[len(sample_batch[0][i]) + 1:]\<close> for the \<open>i\<close>-th decoded string.\<close>

definition strip_prompt :: "string list \<Rightarrow> nat \<times> string \<Rightarrow> error + string" where
  "strip_prompt questions ip =
     (if fst ip < length questions
      then Inr (drop (length (questions ! fst ip) + 1) (snd ip))
      else Inl IndexError)"

text \<open>\<open>_infer_batch\<close>: the texts given to the tokenizer are \<open>sample_batch[0]\<close>.\<close>

definition infer_batch :: "('tok, 'out) pipeline \<Rightarrow> string list list \<Rightarrow> error + string list" where
  "infer_batch p sample_batch =
     (case sample_batch of
        [] \<Rightarrow> Inl IndexError
      | questions # _ \<Rightarrow>
          and_then (tokenizer p questions True True) (\<lambda>tokens.
          case model p of
            None \<Rightarrow> Inl AttributeError
          | Some generate \<Rightarrow>
              and_then (generate tokens (max_length p)) (\<lambda>output.
              and_then (batch_decode p output True) (\<lambda>predictions.
              collect (map (strip_prompt questions) (enumerate 0 predictions))))))"

text \<open>\<open>infer_sample\<close>: \<open>self._infer_batch((sample,))[0]\<close> when a model is loaded.\<close>

definition infer_sample :: "('tok, 'out) pipeline \<Rightarrow> string list \<Rightarrow> error + string option" where
  "infer_sample p sample =
     (case model p of
        None \<Rightarrow> Inr None
      | Some _ \<Rightarrow>
          and_then (infer_batch p [sample]) (\<lambda>predictions.
          case predictions of [] \<Rightarrow> Inl IndexError | x # _ \<Rightarrow> Inr (Some x)))"

subsection \<open>The data loader\<close>

text \<open>
  \<open>DataLoader(dataset, batch_size=n)\<close> with its defaults: the positions
  \<open>0, 1, ..., len(dataset) - 1\<close> in order, grouped into batches of \<open>n\<close>, the last batch
  kept when it is shorter. \<open>batch_sampler_aux\<close> is the sampler's loop with the batch
  being filled as its accumulator.
\<close>

fun batch_sampler_aux :: "nat \<Rightarrow> nat list \<Rightarrow> nat list \<Rightarrow> nat list list" where
  "batch_sampler_aux n batch [] = (if batch = [] then [] else [batch])"
| "batch_sampler_aux n batch (idx # rest) =
     (if length (batch @ [idx]) = n then (batch @ [idx]) # batch_sampler_aux n [] rest
      else batch_sampler_aux n (batch @ [idx]) rest)"

definition batch_sampler :: "nat \<Rightarrow> nat \<Rightarrow> nat list list" where
  "batch_sampler n len = batch_sampler_aux n [] [0..<len]"

text \<open>The loader, as the batches of positions it will fetch; a batch size that is not
  positive is refused when the loader is built.\<close>

definition data_loader :: "'a task_dataset \<Rightarrow> int \<Rightarrow> error + nat list list" where
  "data_loader ds n =
     (if n \<le> 0 then Inl ValueError else Inr (batch_sampler (nat n) (dataset_len ds)))"

text \<open>The samples of one batch, fetched in order.\<close>

definition fetch :: "'a task_dataset \<Rightarrow> nat list \<Rightarrow> error + 'a list list" where
  "fetch ds idxs = collect (map (\<lambda>i. getitem ds (int i)) idxs)"

text \<open>The default collation of a list of tuples of strings: one sequence per tuple
  component, holding that component of every sample in order.\<close>

definition collate :: "'a list list \<Rightarrow> error + 'a list list" where
  "collate samples =
     (case samples of
        [] \<Rightarrow> Inl IndexError
      | s # _ \<Rightarrow>
          if list_all (\<lambda>x. length x = length s) samples
          then Inr (map (\<lambda>j. map (\<lambda>x. x ! j) samples) [0..<length s])
          else Inl RuntimeError)"

definition load_batch :: "'a task_dataset \<Rightarrow> nat list \<Rightarrow> error + 'a list list" where
  "load_batch ds idxs = and_then (fetch ds idxs) collate"

text \<open>The loop of \<open>infer_dataset\<close> over the batches of the loader.\<close>

fun infer_loop ::
  "('tok, 'out) pipeline \<Rightarrow> nat list list \<Rightarrow> string list \<Rightarrow> error + string list" where
  "infer_loop p [] prediction = Inr prediction"
| "infer_loop p (idxs # rest) prediction =
     (case load_batch (dataset p) idxs of
        Inl e \<Rightarrow> Inl e
      | Inr batch \<Rightarrow>
          (case infer_batch p batch of
             Inl e \<Rightarrow> Inl e
           | Inr out \<Rightarrow> infer_loop p rest (prediction @ out)))"

text \<open>\<open>infer_dataset\<close>: the pipeline after the call (its backing table may have the
  predictions column attached) and the returned frame or the exception raised.\<close>

definition infer_dataset ::
  "('tok, 'out) pipeline \<Rightarrow> ('tok, 'out) pipeline \<times> (error + string frame)" where
  "infer_dataset p =
     (case data_loader (dataset p) (batch_size p) of
        Inl e \<Rightarrow> (p, Inl e)
      | Inr loader \<Rightarrow>
          (case infer_loop p loader [] of
             Inl e \<Rightarrow> (p, Inl e)
           | Inr prediction \<Rightarrow>
               (case setitem (dataset_data (dataset p)) ''predictions'' prediction of
                  Inl e \<Rightarrow> (p, Inl e)
                | Inr d \<Rightarrow>
                    (p\<lparr>dataset := TaskDataset d\<rparr>,
                     select_columns d [''target'', ''predictions'']))))"

subsection \<open>A small pipeline\<close>

text \<open>
  A stand-in for a loaded tokenizer and model, used to evaluate the pipeline on concrete
  inputs. One token per character; padding fills every text of the batch with the
  padding token (\<open>None\<close>) up to the longest text; generation extends every row with the
  token of \<open>x\<close> until the row has \<open>max_length\<close> tokens; decoding drops the padding
  token when special tokens are skipped.
\<close>

definition toy_tokenizer :: "string list \<Rightarrow> bool \<Rightarrow> bool \<Rightarrow> error + char option list list" where
  "toy_tokenizer texts padding truncation =
     Inr (map (\<lambda>t. map Some t @
                 replicate (if padding then foldr max (map length texts) 0 - length t else 0) None)
            texts)"

definition toy_generate :: "char option list list \<Rightarrow> int \<Rightarrow> error + char option list list" where
  "toy_generate tokens maxlen =
     Inr (map (\<lambda>row. row @ replicate (nat maxlen - length row) (Some CHR ''x'')) tokens)"

definition toy_decode :: "char option list list \<Rightarrow> bool \<Rightarrow> error + string list" where
  "toy_decode output skip_special_tokens =
     Inr (map (\<lambda>row. concat (map (\<lambda>t. case t of
                                    None \<Rightarrow> (if skip_special_tokens then [] else ''<eos>'')
                                  | Some c \<Rightarrow> [c]) row)) output)"

definition toy_pipeline :: "(char option list list, char option list list) pipeline" where
  "toy_pipeline =
     \<lparr>model_name = ''toy'', dataset = TaskDataset example_clean, max_length = 12,
      batch_size = 2, device = ''cpu'', model = Some toy_generate,
      tokenizer = toy_tokenizer, batch_decode = toy_decode\<rparr>"

text \<open>The clean table with other targets, and a dataset of one row.\<close>

definition example_other_targets :: "string frame" where
  "example_other_targets =
     \<lparr>index = [0, 1, 2],
      cols = [(''question'', [''Explain X'', ''Say hi'', ''Explain X'']),
              (''target'', [''a much longer reference answer'', [], ''no''])]\<rparr>"

definition example_single :: "string frame" where
  "example_single =
     \<lparr>index = [0], cols = [(''question'', [''Say hi'']), (''target'', [''hi there''])]\<rparr>"

section \<open>RawDataImporter\<close>

text \<open>
  What \<open>load_dataset(...).to_pandas()\<close> evaluates to: a DataFrame or some other object.
\<close>

datatype 'a fetched = DataFrame "'a frame" | NotDataFrame

text \<open>
  The dataset registry is outside the program. A call of \<open>load_dataset\<close> with a name and
  a split acts on the state \<open>'w\<close> of the outside world and either raises or yields a
  dataset; \<open>to_pandas\<close> converts a dataset, or raises.
\<close>

record ('w, 'ds, 'a) registry =
  load_dataset :: "string \<Rightarrow> string \<Rightarrow> 'w \<Rightarrow> (error + 'ds) \<times> 'w"
  to_pandas :: "'ds \<Rightarrow> error + 'a fetched"

record 'a importer =
  hf_name :: string
  importer_raw_data :: "'a fetched option"

text \<open>\<open>RawDataImporter.obtain\<close>: the importer after the call, the exception raised if any, and the
  outside world after the call. The attribute is assigned before its type is checked.\<close>

definition importer_obtain ::
  "('w, 'ds, 'a) registry \<Rightarrow> 'a importer \<Rightarrow> 'w \<Rightarrow> ('a importer \<times> error option) \<times> 'w" where
  "importer_obtain reg self w =
     (case load_dataset reg (hf_name self) ''train'' w of
        (Inl e, w') \<Rightarrow> ((self, Some e), w')
      | (Inr ds, w') \<Rightarrow>
          (case to_pandas reg ds of
             Inl e \<Rightarrow> ((self, Some e), w')
           | Inr obj \<Rightarrow>
               (case obj of
                  DataFrame _ \<Rightarrow> ((self\<lparr>importer_raw_data := Some obj\<rparr>, None), w')
                | NotDataFrame \<Rightarrow>
                    ((self\<lparr>importer_raw_data := Some obj\<rparr>, Some TypeError), w'))))"

text \<open>A registry that fails at the first call and would answer a second one; its
  state counts the calls, a dataset is known by its name.\<close>

definition flaky_registry :: "(nat, string, cell) registry" where
  "flaky_registry =
     \<lparr>load_dataset = (\<lambda>name split n.
        (if n = 0 then Inl (LibraryError ''ConnectionError'') else Inr name, Suc n)),
      to_pandas = (\<lambda>ds.
        if ds = ''tabular'' then Inr (DataFrame example_raw)
        else if ds = ''iterable'' then Inr NotDataFrame
        else Inl (LibraryError ''ArrowInvalid''))\<rparr>"

section \<open>TaskEvaluator\<close>

text \<open>
  A metric is identified by its \<open>value\<close>, a string. The external operations: reading the
  CSV file at a path, \<open>load\<close> of a scorer by name, and \<open>compute\<close> of a scorer on the
  references and the predictions, which yields a dictionary of scores.
\<close>

record ('v, 'sc, 's) evaluate_library =
  read_csv :: "string \<Rightarrow> error + 'v frame"
  load :: "string \<Rightarrow> error + 'sc"
  compute :: "'sc \<Rightarrow> 'v list \<Rightarrow> 'v list \<Rightarrow> error + (string \<rightharpoonup> 's)"

record evaluator =
  data_path :: string
  metrics :: "string list"

text \<open>\<open>load(name).compute(references=data['target'], predictions=data['predictions'])\<close>,
  evaluated in that order.\<close>

definition score ::
  "('v, 'sc, 's) evaluate_library \<Rightarrow> 'v frame \<Rightarrow> string \<Rightarrow> error + (string \<rightharpoonup> 's)" where
  "score lib d name =
     and_then (load lib name) (\<lambda>scorer.
     and_then (getcol d ''target'') (\<lambda>references.
     and_then (getcol d ''predictions'') (\<lambda>predictions.
     compute lib scorer references predictions)))"

text \<open>The loop of \<open>run\<close> over the requested metrics. The values of the result are what
  \<open>dict.get\<close> returned: \<open>None\<close> when the scorer's dictionary lacks the key.\<close>

fun run_loop ::
  "('v, 'sc, 's) evaluate_library \<Rightarrow> 'v frame \<Rightarrow> string list \<Rightarrow>
     (string \<rightharpoonup> 's option) \<Rightarrow> error + (string \<rightharpoonup> 's option)" where
  "run_loop lib d [] result = Inr result"
| "run_loop lib d (metric # rest) result =
     (if metric = ''bleu'' then
        (case score lib d metric of
           Inl e \<Rightarrow> Inl e
         | Inr bleu_score \<Rightarrow> run_loop lib d rest (result(''bleu'' \<mapsto> bleu_score ''bleu'')))
      else if metric = ''rouge'' then
        (case score lib d metric of
           Inl e \<Rightarrow> Inl e
         | Inr rouge_score \<Rightarrow> run_loop lib d rest (result(''rouge'' \<mapsto> rouge_score ''rougeL'')))
      else run_loop lib d rest result)"

definition run ::
  "('v, 'sc, 's) evaluate_library \<Rightarrow> evaluator \<Rightarrow> error + (string \<rightharpoonup> 's option)" where
  "run lib self =
     and_then (read_csv lib (data_path self)) (\<lambda>csv.
     and_then (drop_columns [''Unnamed: 0''] csv) (\<lambda>d.
     run_loop lib d (metrics self) Map.empty))"

text \<open>A stand-in for the metrics library: the persisted predictions of the small
  pipeline, and scorers that count the rows where prediction and target agree.\<close>

definition example_csv :: "string frame" where
  "example_csv =
     \<lparr>index = [0, 1, 2],
      cols = [(''Unnamed: 0'', [''0'', ''1'', ''2'']),
              (''target'', [''X is Y'', ''hi there'', ''X is Y'']),
              (''predictions'', [''X is Y'', ''xx'', ''xx''])]\<rparr>"

definition toy_scores :: "string \<Rightarrow> string list \<Rightarrow> string list \<Rightarrow> error + (string \<rightharpoonup> nat)" where
  "toy_scores name references predictions =
     (let hits = length (filter (\<lambda>rp. fst rp = snd rp) (zip references predictions)) in
      if name = ''bleu'' then Inr [''bleu'' \<mapsto> hits, ''precisions'' \<mapsto> 0]
      else if name = ''rouge'' then Inr [''rouge1'' \<mapsto> 2 * hits, ''rougeL'' \<mapsto> 3 * hits]
      else Inr Map.empty)"

definition toy_library :: "(string, string, nat) evaluate_library" where
  "toy_library =
     \<lparr>read_csv = (\<lambda>path. if path = ''predictions.csv'' then Inr example_csv
                         else Inl (LibraryError ''FileNotFoundError'')),
      load = (\<lambda>name. Inr name),
      compute = toy_scores\<rparr>"

section \<open>RawDataPreprocessor.analyze\<close>

text \<open>\<open>df.replace(old, new)\<close>: every cell equal to \<open>old\<close> becomes \<open>new\<close>.\<close>

definition frame_replace :: "cell \<Rightarrow> cell \<Rightarrow> cell frame \<Rightarrow> cell frame" where
  "frame_replace old new d =
     d\<lparr>cols := map (\<lambda>cv. (fst cv, map (\<lambda>c. if c = old then new else c) (snd cv))) (cols d)\<rparr>"

text \<open>\<open>df.isna().sum().sum()\<close>: the missing cells counted per column, then added up.\<close>

definition isna_sum_sum :: "cell frame \<Rightarrow> nat" where
  "isna_sum_sum d = sum_list (map (\<lambda>cv. length (filter (\<lambda>c. c = NA) (snd cv))) (cols d))"

text \<open>The cells of the row at position \<open>k\<close>.\<close>

definition row_values :: "'a frame \<Rightarrow> nat \<Rightarrow> 'a list" where
  "row_values d k = map (\<lambda>cv. snd cv ! k) (cols d)"

text \<open>\<open>df.dropna()\<close>: the rows without a missing cell, with their labels.\<close>

definition dropna :: "cell frame \<Rightarrow> cell frame" where
  "dropna d =
     (let keep = filter (\<lambda>k. NA \<notin> set (row_values d k)) [0..<length (index d)]
      in d\<lparr>index := map ((!) (index d)) keep,
           cols := map (\<lambda>cv. (fst cv, map ((!) (snd cv)) keep)) (cols d)\<rparr>)"

text \<open>\<open>df.reset_index()\<close>: the row labels become the first column, named \<open>index\<close>, or
  \<open>level_0\<close> when there is a column \<open>index\<close> already; \<open>ValueError\<close> when that name is
  taken too. The rows are labelled by their positions afterwards.\<close>

definition reset_index :: "cell frame \<Rightarrow> error + cell frame" where
  "reset_index d =
     (let name = (if ''index'' \<notin> set (column_names d) then ''index'' else ''level_0'')
      in if name \<in> set (column_names d) then Inl ValueError
         else Inr (d\<lparr>index := map int [0..<length (index d)],
                     cols := (name, map Num (index d)) # cols d\<rparr>))"

text \<open>\<open>df.duplicated()\<close>: for every row, whether an earlier row has the same cells; the
  empty series for a frame without rows or without columns.\<close>

definition duplicated :: "'a frame \<Rightarrow> bool list" where
  "duplicated d =
     (if index d = [] \<or> cols d = [] then []
      else map (\<lambda>k. row_values d k \<in> set (map (row_values d) [0..<k]))
             [0..<length (index d)])"

text \<open>Python's \<open>len\<close> of a cell: only a string has a length.\<close>

fun py_len :: "cell \<Rightarrow> error + nat" where
  "py_len (Str s) = Inr (length s)"
| "py_len (Num _) = Inl TypeError"
| "py_len NA = Inl TypeError"

text \<open>\<open>min(xs, key=len)\<close> and \<open>max(xs, key=len)\<close>: the key of every item is computed, the
  first item with the least (greatest) key is returned, \<open>ValueError\<close> on no item at all.
  \<open>select_by_len\<close> is the scan with the best item so far and its key.\<close>

fun select_by_len ::
  "(nat \<Rightarrow> nat \<Rightarrow> bool) \<Rightarrow> cell \<Rightarrow> nat \<Rightarrow> cell list \<Rightarrow> error + cell" where
  "select_by_len better best k [] = Inr best"
| "select_by_len better best k (x # xs) =
     (case py_len x of
        Inl e \<Rightarrow> Inl e
      | Inr kx \<Rightarrow>
          if better kx k then select_by_len better x kx xs
          else select_by_len better best k xs)"

definition min_key_len :: "cell list \<Rightarrow> error + cell" where
  "min_key_len xs =
     (case xs of
        [] \<Rightarrow> Inl ValueError
      | x # rest \<Rightarrow> and_then (py_len x) (\<lambda>k. select_by_len (<) x k rest))"

definition max_key_len :: "cell list \<Rightarrow> error + cell" where
  "max_key_len xs =
     (case xs of
        [] \<Rightarrow> Inl ValueError
      | x # rest \<Rightarrow> and_then (py_len x) (\<lambda>k. select_by_len (>) x k rest))"

text \<open>\<open>analyze\<close>: the dictionary returned, as its items in order.\<close>

definition analyze :: "cell preprocessor \<Rightarrow> error + (string \<times> nat) list" where
  "analyze self =
     and_then (reset_index (dropna (frame_replace (Str []) NA (raw_data self))))
       (\<lambda>without_empty_rows.
     and_then (getcol without_empty_rows ''instruction'') (\<lambda>instructions.
     and_then (min_key_len instructions) (\<lambda>shortest.
     and_then (py_len shortest) (\<lambda>min_len.
     and_then (getcol without_empty_rows ''instruction'') (\<lambda>instructions'.
     and_then (max_key_len instructions') (\<lambda>longest.
     and_then (py_len longest) (\<lambda>max_len.
     Inr [(''dataset_number_of_samples'', fst (shape (raw_data self))),
          (''dataset_columns'', snd (shape (raw_data self))),
          (''dataset_duplicates'', length (filter id (duplicated (raw_data self)))),
          (''dataset_empty_rows'',
             isna_sum_sum (frame_replace (Str []) NA (raw_data self))),
          (''dataset_sample_min_len'', min_len),
          (''dataset_sample_max_len'', max_len)])))))))"

text \<open>A row has no empty cell: none of its cells is missing or the empty string.\<close>

definition no_empty_cell :: "cell frame \<Rightarrow> nat \<Rightarrow> bool" where
  "no_empty_cell d k \<longleftrightarrow> list_all (\<lambda>c. c \<noteq> NA \<and> c \<noteq> Str []) (row_values d k)"

text \<open>A raw table of one row, whose input is the empty string.\<close>

definition example_one_row :: "cell frame" where
  "example_one_row =
     \<lparr>index = [0],
      cols = [(''instruction'', [Str ''Explain X'']), (''input'', [Str []]),
              (''output'', [Str ''X is Y'']), (''text'', [Str ''...''])]\<rparr>"

section \<open>Properties of transform\<close>

lemma length_filter_not_in:
  assumes "distinct (map fst xs)" "distinct ls" "set ls \<subseteq> fst ` set xs"
  shows "length (filter (\<lambda>cv. fst cv \<notin> set ls) xs) = length xs - length ls"
proof -
  have "length (filter (\<lambda>cv. fst cv \<notin> set ls) xs) = length (filter (\<lambda>c. c \<notin> set ls) (map fst xs))"
    by (simp add: filter_map comp_def)
  also have "\<dots> = card ({c. c \<notin> set ls} \<inter> set (map fst xs))"
    using assms(1) by (rule distinct_length_filter)
  also have "{c. c \<notin> set ls} \<inter> set (map fst xs) = set (map fst xs) - set ls"
    by auto
  also have "card (set (map fst xs) - set ls) = card (set (map fst xs)) - card (set ls)"
    using assms(3) by (intro card_Diff_subset) auto
  also have "card (set (map fst xs)) = length xs"
    using distinct_card[OF assms(1)] by simp
  also have "card (set ls) = length ls"
    using assms(2) by (rule distinct_card)
  finally show ?thesis .
qed

lemma drop_columns_Inr:
  assumes "set ls \<subseteq> set (column_names d)"
  shows "drop_columns ls d = Inr (d\<lparr>cols := filter (\<lambda>cv. fst cv \<notin> set ls) (cols d)\<rparr>)"
  using assms by (auto simp: drop_columns_def list_ex_iff)

lemma column_names_rename:
  "column_names (rename_columns m d) = map (rename_label m) (column_names d)"
  by (simp add: rename_columns_def column_names_def)

lemma column_values_rename: "map snd (cols (rename_columns m d)) = map snd (cols d)"
  by (simp add: rename_columns_def comp_def)

lemma index_rename: "index (rename_columns m d) = index d"
  by (simp add: rename_columns_def)

text \<open>
  C1: for every raw table with the columns instruction, input, output and text,
  \<open>transform\<close> succeeds and stores a table with two columns fewer, in which question
  and target are present and instruction, output, input and text are absent. The row
  labels are unchanged and the kept columns hold their value lists unchanged, in their
  order: no row is removed, reordered or altered.
\<close>

theorem transform_projection:
  assumes wf: "wf_frame (raw_data p)"
    and present: "{''instruction'', ''input'', ''output'', ''text''} \<subseteq> set (column_names (raw_data p))"
  shows "\<exists>d. transform p = Inr (p\<lparr>data := Some d\<rparr>) \<and>
           length (cols d) = length (cols (raw_data p)) - 2 \<and>
           ''question'' \<in> set (column_names d) \<and> ''target'' \<in> set (column_names d) \<and>
           ''instruction'' \<notin> set (column_names d) \<and> ''output'' \<notin> set (column_names d) \<and>
           ''input'' \<notin> set (column_names d) \<and> ''text'' \<notin> set (column_names d) \<and>
           index d = index (raw_data p) \<and>
           map snd (cols d) =
             map snd (filter (\<lambda>cv. fst cv \<noteq> ''input'' \<and> fst cv \<noteq> ''text'') (cols (raw_data p)))"
proof -
  define raw where "raw = raw_data p"
  define ls where "ls = [''input'', ''text'']"
  define m where "m = [(''instruction'', ''question''), (''output'', ''target'')]"
  define kept where "kept = raw\<lparr>cols := filter (\<lambda>cv. fst cv \<notin> set ls) (cols raw)\<rparr>"
  define d where "d = rename_columns m kept"
  have sub: "set ls \<subseteq> set (column_names raw)"
    using present by (simp add: ls_def raw_def)
  have "drop_columns ls raw = Inr kept"
    unfolding kept_def using sub by (rule drop_columns_Inr)
  then have t: "transform p = Inr (p\<lparr>data := Some d\<rparr>)"
    by (simp add: transform_def raw_def[symmetric] ls_def[symmetric] m_def[symmetric] d_def)
  have "distinct (map fst (cols raw))"
    using wf by (simp add: wf_frame_def column_names_def raw_def)
  moreover have "distinct ls"
    by (simp add: ls_def)
  moreover have "set ls \<subseteq> fst ` set (cols raw)"
    using sub by (simp add: column_names_def)
  ultimately have "length (filter (\<lambda>cv. fst cv \<notin> set ls) (cols raw)) = length (cols raw) - length ls"
    by (rule length_filter_not_in)
  then have "length (cols kept) = length (cols raw) - length ls"
    by (simp add: kept_def)
  then have len: "length (cols d) = length (cols raw) - 2"
    by (simp add: d_def rename_columns_def ls_def)
  have names_kept: "set (column_names kept) = set (column_names raw) - set ls"
    by (auto simp: kept_def column_names_def)
  have names: "set (column_names d) = rename_label m ` (set (column_names raw) - set ls)"
    by (simp add: d_def column_names_rename names_kept)
  have "''instruction'' \<in> set (column_names raw) - set ls"
    using present by (simp add: raw_def ls_def)
  moreover have "''question'' = rename_label m ''instruction''"
    by (simp add: rename_label_def m_def)
  ultimately have q: "''question'' \<in> set (column_names d)"
    unfolding names by (rule rev_image_eqI)
  have "''output'' \<in> set (column_names raw) - set ls"
    using present by (simp add: raw_def ls_def)
  moreover have "''target'' = rename_label m ''output''"
    by (simp add: rename_label_def m_def)
  ultimately have tg: "''target'' \<in> set (column_names d)"
    unfolding names by (rule rev_image_eqI)
  have avoid: "x \<notin> set (column_names d)"
    if "\<And>c. c \<notin> set ls \<Longrightarrow> rename_label m c \<noteq> x" for x
  proof
    assume "x \<in> set (column_names d)"
    then obtain c where "c \<notin> set ls" "x = rename_label m c"
      unfolding names by (elim imageE DiffE)
    with that show False by blast
  qed
  have a1: "''instruction'' \<notin> set (column_names d)"
    by (rule avoid) (simp add: rename_label_def m_def)
  have a2: "''output'' \<notin> set (column_names d)"
    by (rule avoid) (simp add: rename_label_def m_def)
  have a3: "''input'' \<notin> set (column_names d)"
    by (rule avoid) (simp add: rename_label_def m_def ls_def)
  have a4: "''text'' \<notin> set (column_names d)"
    by (rule avoid) (simp add: rename_label_def m_def ls_def)
  have idx: "index d = index raw"
    by (simp add: d_def index_rename kept_def)
  have vals: "map snd (cols d) =
      map snd (filter (\<lambda>cv. fst cv \<noteq> ''input'' \<and> fst cv \<noteq> ''text'') (cols raw))"
    by (simp add: d_def column_values_rename kept_def ls_def)
  show ?thesis
    unfolding raw_def[symmetric]
    by (intro exI[of _ d] conjI t len q tg a1 a2 a3 a4 idx vals)
qed


theorem transform_projection_witness:
  "wf_frame (raw_data example_preprocessor) \<and>
   {''instruction'', ''input'', ''output'', ''text''}
     \<subseteq> set (column_names (raw_data example_preprocessor)) \<and>
   (\<exists>d. transform example_preprocessor = Inr (example_preprocessor\<lparr>data := Some d\<rparr>) \<and>
        length (cols d) = length (cols (raw_data example_preprocessor)) - 2 \<and>
        ''question'' \<in> set (column_names d) \<and> ''target'' \<in> set (column_names d) \<and>
        ''instruction'' \<notin> set (column_names d) \<and> ''output'' \<notin> set (column_names d) \<and>
        ''input'' \<notin> set (column_names d) \<and> ''text'' \<notin> set (column_names d) \<and>
        index d = index (raw_data example_preprocessor) \<and>
        map snd (cols d) =
          map snd (filter (\<lambda>cv. fst cv \<noteq> ''input'' \<and> fst cv \<noteq> ''text'')
                     (cols (raw_data example_preprocessor))))"
proof -
  have wf: "wf_frame (raw_data example_preprocessor)"
    by (simp add: example_preprocessor_def example_raw_def wf_frame_def column_names_def)
  have present: "{''instruction'', ''input'', ''output'', ''text''}
      \<subseteq> set (column_names (raw_data example_preprocessor))"
    by (simp add: example_preprocessor_def example_raw_def column_names_def)
  show ?thesis
    by (intro conjI wf present transform_projection [OF wf present])
qed

section \<open>Properties of the dataset adapter\<close>

lemma and_then_Inr [simp]: "and_then (Inr x) f = f x"
  by (simp add: and_then_def)

lemma and_then_Inl [simp]: "and_then (Inl e) f = Inl e"
  by (simp add: and_then_def)

lemma map_of_nth_column:
  "map_of cs c = Some vs \<Longrightarrow> map_of (map (\<lambda>cv. (fst cv, snd cv ! k)) cs) c = Some (vs ! k)"
  by (induction cs) (auto split: if_splits)

lemma iloc_in_range:
  "i < length (index d) \<Longrightarrow> iloc d (int i) = Inr (map (\<lambda>cv. (fst cv, snd cv ! i)) (cols d))"
  by (simp add: iloc_def Let_def)

lemma getitem_in_range:
  assumes "map_of (cols d) ''question'' = Some qs"
    and "map_of (cols d) ''target'' = Some ts"
    and "i < length (index d)"
  shows "getitem (TaskDataset d) (int i) = Inr [qs ! i, ts ! i]"
  using assms by (simp add: iloc_in_range series_get_def map_of_nth_column)

text \<open>
  C6: for a backing table with unique column labels and one value per row in every
  column, the length of the adapter is the row count of the table, indexed access at a
  valid row position returns the question and the target stored in that row, and the
  data accessor returns the backing table itself.
\<close>

theorem task_dataset_view:
  assumes wf: "wf_frame d"
    and q: "map_of (cols d) ''question'' = Some qs"
    and t: "map_of (cols d) ''target'' = Some ts"
    and i: "i < length (index d)"
  shows "dataset_len (TaskDataset d) = length (index d) \<and>
         getitem (TaskDataset d) (int i) = Inr [qs ! i, ts ! i] \<and>
         dataset_data (TaskDataset d) = d"
  using getitem_in_range [OF q t i] by simp

theorem task_dataset_view_witness:
  "wf_frame example_clean \<and>
   map_of (cols example_clean) ''question'' = Some [''Explain X'', ''Say hi'', ''Explain X''] \<and>
   map_of (cols example_clean) ''target'' = Some [''X is Y'', ''hi there'', ''X is Y''] \<and>
   (1::nat) < length (index example_clean) \<and>
   dataset_len (TaskDataset example_clean) = 3 \<and>
   getitem (TaskDataset example_clean) 1 = Inr [''Say hi'', ''hi there''] \<and>
   dataset_data (TaskDataset example_clean) = example_clean"
proof -
  have wf: "wf_frame example_clean"
    by (simp add: example_clean_def wf_frame_def column_names_def)
  have q: "map_of (cols example_clean) ''question''
      = Some [''Explain X'', ''Say hi'', ''Explain X'']"
    by (simp add: example_clean_def)
  have t: "map_of (cols example_clean) ''target'' = Some [''X is Y'', ''hi there'', ''X is Y'']"
    by (simp add: example_clean_def)
  have i: "(1::nat) < length (index example_clean)"
    by (simp add: example_clean_def)
  show ?thesis
    using wf q t i task_dataset_view [OF wf q t i] by (simp add: example_clean_def)
qed

lemma collect_map_Inr:
  "(\<And>x. x \<in> set xs \<Longrightarrow> f x = Inr (g x)) \<Longrightarrow> collect (map f xs) = Inr (map g xs)"
  by (induction xs) simp_all

section \<open>Properties of the data loader\<close>

lemma concat_batch_sampler_aux:
  "concat (batch_sampler_aux n batch xs) = batch @ xs"
  by (induction xs arbitrary: batch) auto

lemma batch_sampler_aux_sizes:
  assumes "0 < n" "length batch < n" "b \<in> set (batch_sampler_aux n batch xs)"
  shows "b \<noteq> [] \<and> length b \<le> n"
  using assms
proof (induction xs arbitrary: batch)
  case Nil
  then show ?case by (auto split: if_splits)
next
  case (Cons x xs)
  show ?case
  proof (cases "length (batch @ [x]) = n")
    case True
    with Cons.prems have "b = batch @ [x] \<or> b \<in> set (batch_sampler_aux n [] xs)"
      by simp
    then show ?thesis
      using True Cons.IH [of "[]"] Cons.prems(1) by auto
  next
    case False
    with Cons.prems have "b \<in> set (batch_sampler_aux n (batch @ [x]) xs)" "length (batch @ [x]) < n"
      by auto
    then show ?thesis
      using Cons.IH [of "batch @ [x]"] Cons.prems(1) by blast
  qed
qed

lemma batch_sampler_aux_full:
  assumes "length batch < n" "b \<in> set (butlast (batch_sampler_aux n batch xs))"
  shows "length b = n"
  using assms
proof (induction xs arbitrary: batch)
  case Nil
  then show ?case by (auto split: if_splits)
next
  case (Cons x xs)
  show ?case
  proof (cases "length (batch @ [x]) = n")
    case True
    with Cons.prems have "b = batch @ [x] \<or> b \<in> set (butlast (batch_sampler_aux n [] xs))"
      by (auto split: if_splits)
    then show ?thesis
      using True Cons.IH [of "[]"] Cons.prems(1) by auto
  next
    case False
    with Cons.prems have "b \<in> set (butlast (batch_sampler_aux n (batch @ [x]) xs))" "length (batch @ [x]) < n"
      by auto
    then show ?thesis
      using Cons.IH [of "batch @ [x]"] by blast
  qed
qed

lemma nth_concat_offset:
  "k < length xss \<Longrightarrow> j < length (xss ! k) \<Longrightarrow>
     concat xss ! (length (concat (take k xss)) + j) = xss ! k ! j"
proof (induction xss arbitrary: k)
  case Nil
  then show ?case by simp
next
  case (Cons xs xss)
  show ?case
  proof (cases k)
    case 0
    with Cons.prems show ?thesis by (simp add: nth_append)
  next
    case (Suc k')
    with Cons.prems have "concat xss ! (length (concat (take k' xss)) + j) = xss ! k' ! j"
      by (intro Cons.IH) auto
    with Suc show ?thesis by (simp add: nth_append add.assoc)
  qed
qed

lemma length_concat_take_all2:
  "list_all2 (\<lambda>b out. length out = length b) bs pss \<Longrightarrow>
     length (concat (take k pss)) = length (concat (take k bs))"
proof (induction bs pss arbitrary: k rule: list_all2_induct)
  case Nil
  then show ?case by simp
next
  case (Cons b bs out pss)
  then show ?case by (cases k) auto
qed

lemma concat_aligned:
  assumes all2: "list_all2 (\<lambda>b out. length out = length b) bs pss"
    and range: "concat bs = [0..<n]"
    and k: "k < length bs" and j: "j < length (bs ! k)"
  shows "concat pss ! (bs ! k ! j) = pss ! k ! j"
proof -
  let ?m = "length (concat (take k bs)) + j"
  have len: "length pss = length bs"
    using all2 by (simp add: list_all2_lengthD)
  have lk: "length (pss ! k) = length (bs ! k)"
    using list_all2_nthD [OF all2 k] by simp
  have at: "concat bs ! ?m = bs ! k ! j"
    using k j by (rule nth_concat_offset)
  have "concat bs = concat (take k bs) @ concat (drop k bs)"
    by (metis append_take_drop_id concat_append)
  moreover have "j < length (concat (drop k bs))"
    using k j by (simp add: Cons_nth_drop_Suc [symmetric])
  ultimately have "?m < length (concat bs)"
    by (metis add_less_cancel_left length_append)
  then have "?m < n" "concat bs ! ?m = ?m"
    using range by simp_all
  with at have "bs ! k ! j = ?m" by simp
  moreover have "concat pss ! (length (concat (take k pss)) + j) = pss ! k ! j"
    using k j len lk by (intro nth_concat_offset) simp_all
  ultimately show ?thesis
    using length_concat_take_all2 [OF all2, of k] by simp
qed


subsection \<open>Loading a batch\<close>

lemma collate_pairs:
  assumes "b \<noteq> []"
  shows "collate (map (\<lambda>i. [f i, g i]) b) = Inr [map f b, map g b]"
  using assms by (cases b) (simp_all add: collate_def list_all_iff comp_def)

lemma load_batch_rows:
  assumes "map_of (cols d) ''question'' = Some qs"
    and "map_of (cols d) ''target'' = Some ts"
    and "b \<noteq> []" and "\<forall>i\<in>set b. i < length (index d)"
  shows "load_batch (TaskDataset d) b = Inr [map ((!) qs) b, map ((!) ts) b]"
proof -
  have "fetch (TaskDataset d) b = Inr (map (\<lambda>i. [qs ! i, ts ! i]) b)"
    unfolding fetch_def using assms(4)
    by (intro collect_map_Inr getitem_in_range [OF assms(1,2)]) simp
  then show ?thesis
    using collate_pairs [OF assms(3), of "(!) qs" "(!) ts"] by (simp add: load_batch_def)
qed

lemma infer_loop_batches:
  assumes ds: "dataset p = TaskDataset d"
    and q: "map_of (cols d) ''question'' = Some qs"
    and t: "map_of (cols d) ''target'' = Some ts"
    and rng: "\<forall>b\<in>set bs. b \<noteq> [] \<and> (\<forall>i\<in>set b. i < length (index d))"
    and ok: "\<forall>b\<in>set bs. \<exists>out. infer_batch p [map ((!) qs) b, map ((!) ts) b] = Inr out \<and>
                length out = length b"
  shows "\<exists>pss. list_all2 (\<lambda>b out. infer_batch p [map ((!) qs) b, map ((!) ts) b] = Inr out \<and>
                   length out = length b) bs pss \<and>
               infer_loop p bs acc = Inr (acc @ concat pss)"
  using rng ok
proof (induction bs arbitrary: acc)
  case Nil
  show ?case by simp
next
  case (Cons b bs)
  from Cons.prems obtain out where
    out: "infer_batch p [map ((!) qs) b, map ((!) ts) b] = Inr out" "length out = length b"
    by auto
  from Cons.prems have "b \<noteq> []" "\<forall>i\<in>set b. i < length (index d)"
    by auto
  then have lb: "load_batch (dataset p) b = Inr [map ((!) qs) b, map ((!) ts) b]"
    unfolding ds by (rule load_batch_rows [OF q t])
  from Cons.prems Cons.IH [of "acc @ out"] obtain pss where
    pss: "list_all2 (\<lambda>b out. infer_batch p [map ((!) qs) b, map ((!) ts) b] = Inr out \<and>
                   length out = length b) bs pss"
      "infer_loop p bs (acc @ out) = Inr ((acc @ out) @ concat pss)"
    by auto
  have "list_all2 (\<lambda>b out. infer_batch p [map ((!) qs) b, map ((!) ts) b] = Inr out \<and>
                   length out = length b) (b # bs) (out # pss)"
    using out pss(1) by simp
  moreover have "infer_loop p (b # bs) acc = Inr (acc @ concat (out # pss))"
    using lb out(1) pss(2) by simp
  ultimately show ?case by blast
qed

subsection \<open>Attaching and selecting columns\<close>

lemma map_of_replace_column:
  "map_of (map (\<lambda>cv. if fst cv = c then (c, vals) else cv) cs) c' =
     (if c' = c \<and> c \<in> fst ` set cs then Some vals else map_of cs c')"
  by (induction cs) (force simp: image_iff)+

lemma setitem_columns:
  assumes "length vals = length (index d)"
  shows "\<exists>d'. setitem d c vals = Inr d' \<and> index d' = index d \<and>
              map_of (cols d') c = Some vals \<and>
              (\<forall>c'. c' \<noteq> c \<longrightarrow> map_of (cols d') c' = map_of (cols d) c') \<and>
              (c \<notin> set (column_names d) \<longrightarrow> cols d' = cols d @ [(c, vals)])"
proof (cases "c \<in> set (column_names d)")
  case True
  then show ?thesis
    using assms by (simp add: setitem_def map_of_replace_column column_names_def)
next
  case False
  then have "map_of (cols d) c = None"
    by (simp add: column_names_def map_of_eq_None_iff)
  with False show ?thesis
    using assms by (simp add: setitem_def map_add_def split: option.splits)
qed

lemma select_two_columns:
  assumes "map_of (cols d) a = Some xs" "map_of (cols d) b = Some ys"
  shows "select_columns d [a, b] = Inr \<lparr>index = index d, cols = [(a, xs), (b, ys)]\<rparr>"
  using assms by (simp add: select_columns_def getcol_def)

section \<open>Properties of batched inference\<close>

lemma strip_prompts_Inr:
  assumes "length decoded \<le> length questions"
  shows "collect (map (strip_prompt questions) (enumerate 0 decoded)) =
         Inr (map (\<lambda>i. drop (length (questions ! i) + 1) (decoded ! i)) [0..<length decoded])"
proof -
  have "collect (map (strip_prompt questions) (enumerate 0 decoded)) =
        Inr (map (\<lambda>ip. drop (length (questions ! fst ip) + 1) (snd ip)) (enumerate 0 decoded))"
    using assms
    by (intro collect_map_Inr) (auto simp: strip_prompt_def in_set_enumerate_eq)
  also have "map (\<lambda>ip. drop (length (questions ! fst ip) + 1) (snd ip)) (enumerate 0 decoded) =
        map (\<lambda>i. drop (length (questions ! i) + 1) (decoded ! i)) [0..<length decoded]"
    by (rule nth_equalityI) (simp_all add: nth_enumerate_eq)
  finally show ?thesis .
qed

text \<open>
  C4: when a model is loaded and the library calls succeed with one decoded string per
  question, \<open>_infer_batch\<close> tokenizes the questions (the first component of the batch)
  with padding and truncation enabled, generates with \<open>max_length\<close>, decodes skipping
  special tokens, and returns for the i-th question the decoded string without its
  first \<open>len(question) + 1\<close> characters.
\<close>

theorem infer_batch_decoding:
  assumes "model p = Some generate"
    and "tokenizer p questions True True = Inr tokens"
    and "generate tokens (max_length p) = Inr output"
    and "batch_decode p output True = Inr decoded"
    and "length decoded = length questions"
  shows "infer_batch p (questions # others) =
         Inr (map (\<lambda>i. drop (length (questions ! i) + 1) (decoded ! i)) [0..<length questions])"
  using assms strip_prompts_Inr [of decoded questions]
  by (simp add: infer_batch_def)

theorem infer_batch_decoding_witness:
  "model (toy_pipeline\<lparr>max_length := 4\<rparr>) = Some toy_generate \<and>
   tokenizer (toy_pipeline\<lparr>max_length := 4\<rparr>) [''ab'', ''c''] True True
     = Inr [[Some CHR ''a'', Some CHR ''b''], [Some CHR ''c'', None]] \<and>
   toy_generate [[Some CHR ''a'', Some CHR ''b''], [Some CHR ''c'', None]]
       (max_length (toy_pipeline\<lparr>max_length := 4\<rparr>))
     = Inr [[Some CHR ''a'', Some CHR ''b'', Some CHR ''x'', Some CHR ''x''],
            [Some CHR ''c'', None, Some CHR ''x'', Some CHR ''x'']] \<and>
   batch_decode (toy_pipeline\<lparr>max_length := 4\<rparr>)
       [[Some CHR ''a'', Some CHR ''b'', Some CHR ''x'', Some CHR ''x''],
        [Some CHR ''c'', None, Some CHR ''x'', Some CHR ''x'']] True
     = Inr [''abxx'', ''cxx''] \<and>
   length [''abxx'', ''cxx''] = length [''ab'', ''c''] \<and>
   infer_batch (toy_pipeline\<lparr>max_length := 4\<rparr>) [[''ab'', ''c''], [''t1'', ''t2'']]
     = Inr [''x'', ''x'']"
proof -
  let ?p = "toy_pipeline\<lparr>max_length := 4\<rparr>"
  let ?tokens = "[[Some CHR ''a'', Some CHR ''b''], [Some CHR ''c'', None]]"
  let ?output = "[[Some CHR ''a'', Some CHR ''b'', Some CHR ''x'', Some CHR ''x''],
            [Some CHR ''c'', None, Some CHR ''x'', Some CHR ''x'']]"
  have h1: "model ?p = Some toy_generate"
    by (simp add: toy_pipeline_def)
  have h2: "tokenizer ?p [''ab'', ''c''] True True = Inr ?tokens"
    by (simp add: toy_pipeline_def toy_tokenizer_def)
  have h3: "toy_generate ?tokens (max_length ?p) = Inr ?output"
    by (simp add: toy_generate_def numeral_eq_Suc)
  have h4: "batch_decode ?p ?output True = Inr [''abxx'', ''cxx'']"
    by (simp add: toy_pipeline_def toy_decode_def)
  have h5: "length [''abxx'', ''cxx''] = length [''ab'', ''c'']"
    by simp
  have "infer_batch ?p [[''ab'', ''c''], [''t1'', ''t2'']] = Inr [''x'', ''x'']"
    using infer_batch_decoding [OF h1 h2 h3 h4 h5, of "[[''t1'', ''t2'']]"] by simp
  with h1 h2 h3 h4 h5 show ?thesis
    by (intro conjI)
qed

section \<open>Properties of infer_dataset\<close>

lemma batch_sampler_range:
  assumes "0 < n" "b \<in> set (batch_sampler n len)"
  shows "b \<noteq> [] \<and> length b \<le> n \<and> (\<forall>i\<in>set b. i < len)"
proof -
  have "b \<noteq> [] \<and> length b \<le> n"
    using assms batch_sampler_aux_sizes [of n "[]" b "[0..<len]"]
    by (simp add: batch_sampler_def)
  moreover have "set b \<subseteq> set (concat (batch_sampler n len))"
    using assms(2) by auto
  then have "\<forall>i\<in>set b. i < len"
    by (auto simp: batch_sampler_def concat_batch_sampler_aux)
  ultimately show ?thesis by simp
qed

text \<open>
  C3: for a dataset with question and target columns, a positive batch size and a model
  that answers every batch with one prediction per question, \<open>infer_dataset\<close> walks the
  row positions \<open>0, 1, ...\<close> in order in batches of \<open>batch_size\<close> (only the last may be
  shorter), concatenates the predictions of the batches in that order, attaches them to
  the backing table as the predictions column, and returns the frame of the target and
  predictions columns with the row labels of the dataset: one prediction per row, the
  prediction at a row position being the one inferred for the question of that row.
\<close>

theorem infer_dataset_in_order:
  assumes ds: "dataset p = TaskDataset d"
    and wf: "wf_frame d"
    and q: "map_of (cols d) ''question'' = Some qs"
    and t: "map_of (cols d) ''target'' = Some ts"
    and bs: "0 < batch_size p"
    and ok: "\<forall>b\<in>set (batch_sampler (nat (batch_size p)) (length (index d))).
               \<exists>out. infer_batch p [map ((!) qs) b, map ((!) ts) b] = Inr out \<and>
                     length out = length b"
  shows "\<exists>batches pss preds d'.
           data_loader (dataset p) (batch_size p) = Inr batches \<and>
           concat batches = [0..<length (index d)] \<and>
           (\<forall>b\<in>set (butlast batches). length b = nat (batch_size p)) \<and>
           (\<forall>b\<in>set batches. b \<noteq> [] \<and> length b \<le> nat (batch_size p)) \<and>
           list_all2 (\<lambda>b out. infer_batch p [map ((!) qs) b, map ((!) ts) b] = Inr out \<and>
                              length out = length b) batches pss \<and>
           preds = concat pss \<and>
           length preds = length (index d) \<and>
           (\<forall>k<length batches. \<forall>j<length (batches ! k).
               preds ! (batches ! k ! j) = pss ! k ! j) \<and>
           index d' = index d \<and>
           map_of (cols d') ''predictions'' = Some preds \<and>
           (''predictions'' \<notin> set (column_names d) \<longrightarrow>
               cols d' = cols d @ [(''predictions'', preds)]) \<and>
           infer_dataset p =
             (p\<lparr>dataset := TaskDataset d'\<rparr>,
              Inr \<lparr>index = index d, cols = [(''target'', ts), (''predictions'', preds)]\<rparr>)"
proof -
  define n where "n = nat (batch_size p)"
  define batches where "batches = batch_sampler n (length (index d))"
  have npos: "0 < n"
    using bs by (simp add: n_def)
  have loader: "data_loader (dataset p) (batch_size p) = Inr batches"
    using bs by (simp add: data_loader_def ds batches_def n_def)
  have cat: "concat batches = [0..<length (index d)]"
    by (simp add: batches_def batch_sampler_def concat_batch_sampler_aux)
  have full: "\<forall>b\<in>set (butlast batches). length b = n"
    using npos batch_sampler_aux_full [of "[]" n _ "[0..<length (index d)]"]
    by (simp add: batches_def batch_sampler_def)
  have rng: "\<forall>b\<in>set batches. b \<noteq> [] \<and> length b \<le> n \<and> (\<forall>i\<in>set b. i < length (index d))"
    using batch_sampler_range [OF npos] by (simp add: batches_def)
  then have rng1: "\<forall>b\<in>set batches. b \<noteq> [] \<and> (\<forall>i\<in>set b. i < length (index d))"
    and sizes: "\<forall>b\<in>set batches. b \<noteq> [] \<and> length b \<le> n"
    by blast+
  have ok': "\<forall>b\<in>set batches. \<exists>out. infer_batch p [map ((!) qs) b, map ((!) ts) b] = Inr out \<and>
                length out = length b"
    using ok by (simp add: batches_def n_def)
  from infer_loop_batches [OF ds q t rng1 ok', of "[]"] obtain pss where
    all2: "list_all2 (\<lambda>b out. infer_batch p [map ((!) qs) b, map ((!) ts) b] = Inr out \<and>
                   length out = length b) batches pss"
    and loop: "infer_loop p batches [] = Inr (concat pss)"
    by auto
  define preds where "preds = concat pss"
  have lens: "list_all2 (\<lambda>b out. length out = length b) batches pss"
    using all2 by (rule list_all2_mono) simp
  have "length (concat pss) = length (concat batches)"
    using length_concat_take_all2 [OF lens, of "length batches"] list_all2_lengthD [OF lens]
    by simp
  then have len: "length preds = length (index d)"
    by (simp add: preds_def cat)
  have aligned: "\<forall>k<length batches. \<forall>j<length (batches ! k).
               preds ! (batches ! k ! j) = pss ! k ! j"
    unfolding preds_def using concat_aligned [OF lens cat] by blast
  from setitem_columns [OF len, of "''predictions''"] obtain d' where
    d': "setitem d ''predictions'' preds = Inr d'" "index d' = index d"
      "map_of (cols d') ''predictions'' = Some preds"
      "\<forall>c'. c' \<noteq> ''predictions'' \<longrightarrow> map_of (cols d') c' = map_of (cols d) c'"
      "''predictions'' \<notin> set (column_names d) \<longrightarrow> cols d' = cols d @ [(''predictions'', preds)]"
    by blast
  have "map_of (cols d') ''target'' = Some ts"
    using d'(4) t by simp
  then have sel: "select_columns d' [''target'', ''predictions''] =
      Inr \<lparr>index = index d, cols = [(''target'', ts), (''predictions'', preds)]\<rparr>"
    using select_two_columns [of d' "''target''" ts "''predictions''" preds] d'(2,3) by simp
  have res: "infer_dataset p =
             (p\<lparr>dataset := TaskDataset d'\<rparr>,
              Inr \<lparr>index = index d, cols = [(''target'', ts), (''predictions'', preds)]\<rparr>)"
    using loader loop d'(1) sel by (simp add: infer_dataset_def ds preds_def)
  show ?thesis
    using loader cat full sizes all2 preds_def len aligned d'(2,3,5) res
    unfolding n_def by (intro exI [of _ batches] exI [of _ pss] exI [of _ preds] exI [of _ d']) simp
qed


theorem infer_dataset_in_order_witness:
  "dataset toy_pipeline = TaskDataset example_clean \<and>
   wf_frame example_clean \<and>
   map_of (cols example_clean) ''question'' = Some [''Explain X'', ''Say hi'', ''Explain X''] \<and>
   map_of (cols example_clean) ''target'' = Some [''X is Y'', ''hi there'', ''X is Y''] \<and>
   0 < batch_size toy_pipeline \<and>
   batch_sampler (nat (batch_size toy_pipeline)) (length (index example_clean))
     = [[0, 1], [2]] \<and>
   infer_batch toy_pipeline [[''Explain X'', ''Say hi''], [''X is Y'', ''hi there'']]
     = Inr [''xx'', ''xx''] \<and>
   infer_batch toy_pipeline [[''Explain X''], [''X is Y'']] = Inr [''xx''] \<and>
   (\<exists>d'. infer_dataset toy_pipeline =
      (toy_pipeline\<lparr>dataset := TaskDataset d'\<rparr>,
       Inr \<lparr>index = [0, 1, 2],
            cols = [(''target'', [''X is Y'', ''hi there'', ''X is Y'']),
                    (''predictions'', [''xx'', ''xx'', ''xx''])]\<rparr>))"
proof -
  let ?qs = "[''Explain X'', ''Say hi'', ''Explain X'']"
  let ?ts = "[''X is Y'', ''hi there'', ''X is Y'']"
  have ds: "dataset toy_pipeline = TaskDataset example_clean"
    by (simp add: toy_pipeline_def)
  have wf: "wf_frame example_clean"
    by (simp add: example_clean_def wf_frame_def column_names_def)
  have q: "map_of (cols example_clean) ''question'' = Some ?qs"
    by (simp add: example_clean_def)
  have t: "map_of (cols example_clean) ''target'' = Some ?ts"
    by (simp add: example_clean_def)
  have bs: "0 < batch_size toy_pipeline"
    by (simp add: toy_pipeline_def)
  have batches: "batch_sampler (nat (batch_size toy_pipeline)) (length (index example_clean))
      = [[0, 1], [2]]"
    by code_simp
  have b1: "infer_batch toy_pipeline [map ((!) ?qs) [0, 1], map ((!) ?ts) [0, 1]]
      = Inr [''xx'', ''xx'']"
    by code_simp
  have b2: "infer_batch toy_pipeline [map ((!) ?qs) [2], map ((!) ?ts) [2]] = Inr [''xx'']"
    by code_simp
  have ok: "\<forall>b\<in>set (batch_sampler (nat (batch_size toy_pipeline)) (length (index example_clean))).
      \<exists>out. infer_batch toy_pipeline [map ((!) ?qs) b, map ((!) ?ts) b] = Inr out \<and>
            length out = length b"
    unfolding batches using b1 b2 by simp
  from infer_dataset_in_order [OF ds wf q t bs ok] obtain batches' pss preds d' where
    r: "data_loader (dataset toy_pipeline) (batch_size toy_pipeline) = Inr batches'"
      "list_all2 (\<lambda>b out. infer_batch toy_pipeline [map ((!) ?qs) b, map ((!) ?ts) b] = Inr out \<and>
                              length out = length b) batches' pss"
      "preds = concat pss"
      "infer_dataset toy_pipeline =
             (toy_pipeline\<lparr>dataset := TaskDataset d'\<rparr>,
              Inr \<lparr>index = index example_clean, cols = [(''target'', ?ts), (''predictions'', preds)]\<rparr>)"
    by blast
  have "batches' = [[0, 1], [2]]"
    using r(1) bs batches by (simp add: data_loader_def ds)
  with r(2) have "pss = [[''xx'', ''xx''], [''xx'']]"
    using b1 b2 by (auto simp: list_all2_Cons1)
  with r(3) have "preds = [''xx'', ''xx'', ''xx'']"
    by simp
  with r(4) have "\<exists>d'. infer_dataset toy_pipeline =
      (toy_pipeline\<lparr>dataset := TaskDataset d'\<rparr>,
       Inr \<lparr>index = [0, 1, 2],
            cols = [(''target'', ?ts), (''predictions'', [''xx'', ''xx'', ''xx''])]\<rparr>)"
    by (auto simp: example_clean_def)
  moreover have "infer_batch toy_pipeline [[''Explain X'', ''Say hi''], [''X is Y'', ''hi there'']]
     = Inr [''xx'', ''xx'']"
    using b1 by simp
  moreover have "infer_batch toy_pipeline [[''Explain X''], [''X is Y'']] = Inr [''xx'']"
    using b2 by simp
  ultimately show ?thesis
    using ds wf q t bs batches by (intro conjI)
qed

lemma infer_batch_questions_only:
  "infer_batch p (questions # others) = infer_batch p (questions # others')"
  by (simp add: infer_batch_def)

lemma infer_batch_dataset:
  "infer_batch (p\<lparr>dataset := ds\<rparr>) batch = infer_batch p batch"
  by (simp add: infer_batch_def cong: list.case_cong option.case_cong)

lemma infer_loop_targets:
  assumes q1: "map_of (cols d1) ''question'' = Some qs"
    and t1: "map_of (cols d1) ''target'' = Some ts1"
    and q2: "map_of (cols d2) ''question'' = Some qs"
    and t2: "map_of (cols d2) ''target'' = Some ts2"
    and rng1: "\<forall>b\<in>set bs. b \<noteq> [] \<and> (\<forall>i\<in>set b. i < length (index d1))"
    and rng2: "\<forall>b\<in>set bs. b \<noteq> [] \<and> (\<forall>i\<in>set b. i < length (index d2))"
  shows "infer_loop (p\<lparr>dataset := TaskDataset d1\<rparr>) bs acc =
         infer_loop (p\<lparr>dataset := TaskDataset d2\<rparr>) bs acc"
  using rng1 rng2
proof (induction bs arbitrary: acc)
  case Nil
  show ?case by simp
next
  case (Cons b bs)
  have l1: "load_batch (TaskDataset d1) b = Inr [map ((!) qs) b, map ((!) ts1) b]"
    using Cons.prems(1) by (intro load_batch_rows [OF q1 t1]) auto
  have l2: "load_batch (TaskDataset d2) b = Inr [map ((!) qs) b, map ((!) ts2) b]"
    using Cons.prems(2) by (intro load_batch_rows [OF q2 t2]) auto
  have same: "infer_batch (p\<lparr>dataset := TaskDataset d1\<rparr>) [map ((!) qs) b, map ((!) ts1) b] =
        infer_batch (p\<lparr>dataset := TaskDataset d2\<rparr>) [map ((!) qs) b, map ((!) ts2) b]"
    unfolding infer_batch_dataset by (rule infer_batch_questions_only)
  have ih: "infer_loop (p\<lparr>dataset := TaskDataset d1\<rparr>) bs acc' =
         infer_loop (p\<lparr>dataset := TaskDataset d2\<rparr>) bs acc'" for acc'
    using Cons.prems by (intro Cons.IH) auto
  show ?case
    using l1 l2 same ih by (simp split: sum.splits)
qed

lemma column_length:
  assumes "wf_frame d" "map_of (cols d) c = Some vs"
  shows "length vs = length (index d)"
proof -
  have "(c, vs) \<in> set (cols d)"
    using assms(2) by (rule map_of_SomeD)
  then show ?thesis
    using assms(1) by (auto simp: wf_frame_def list_all_iff)
qed

lemma attach_predictions:
  assumes "map_of (cols d) ''target'' = Some ts" "length preds = length (index d)"
  shows "\<exists>d'. setitem d ''predictions'' preds = Inr d' \<and>
           select_columns d' [''target'', ''predictions''] =
             Inr \<lparr>index = index d, cols = [(''target'', ts), (''predictions'', preds)]\<rparr>"
proof -
  from setitem_columns [OF assms(2), of "''predictions''"] obtain d' where
    d': "setitem d ''predictions'' preds = Inr d'" "index d' = index d"
      "map_of (cols d') ''predictions'' = Some preds"
      "\<forall>c'. c' \<noteq> ''predictions'' \<longrightarrow> map_of (cols d') c' = map_of (cols d) c'"
    by blast
  have "map_of (cols d') ''target'' = Some ts"
    using d'(4) assms(1) by simp
  then have "select_columns d' [''target'', ''predictions''] =
      Inr \<lparr>index = index d', cols = [(''target'', ts), (''predictions'', preds)]\<rparr>"
    using d'(3) by (rule select_two_columns)
  then show ?thesis
    using d'(1,2) by simp
qed

lemma infer_dataset_predictions:
  assumes "map_of (cols d) ''target'' = Some ts"
  shows "map_sum id (\<lambda>v. map_of (cols v) ''predictions'')
           (snd (infer_dataset (p\<lparr>dataset := TaskDataset d\<rparr>))) =
      (case data_loader (TaskDataset d) (batch_size p) of
         Inl e \<Rightarrow> Inl e
       | Inr loader \<Rightarrow>
           (case infer_loop (p\<lparr>dataset := TaskDataset d\<rparr>) loader [] of
              Inl e \<Rightarrow> Inl e
            | Inr preds \<Rightarrow>
                if length preds = length (index d) then Inr (Some preds) else Inl ValueError))"
proof (cases "data_loader (TaskDataset d) (batch_size p)")
  case (Inl e)
  then show ?thesis by (simp add: infer_dataset_def)
next
  case loader: (Inr loader)
  show ?thesis
  proof (cases "infer_loop (p\<lparr>dataset := TaskDataset d\<rparr>) loader []")
    case (Inl e)
    with loader show ?thesis by (simp add: infer_dataset_def)
  next
    case preds: (Inr preds)
    show ?thesis
    proof (cases "length preds = length (index d)")
      case True
      from attach_predictions [OF assms True] obtain d' where
        "setitem d ''predictions'' preds = Inr d'"
        "select_columns d' [''target'', ''predictions''] =
             Inr \<lparr>index = index d, cols = [(''target'', ts), (''predictions'', preds)]\<rparr>"
        by blast
      with loader preds True show ?thesis
        by (simp add: infer_dataset_def)
    next
      case False
      then have "setitem d ''predictions'' preds = Inl ValueError"
        by (simp add: setitem_def)
      with loader preds False show ?thesis
        by (simp add: infer_dataset_def)
    qed
  qed
qed

text \<open>
  C10: \<open>_infer_batch\<close> reads only the first component of a collated batch, the
  questions; and for two datasets with the same question column, whatever their target
  columns hold, \<open>infer_dataset\<close> produces the same predictions column (or raises the
  same exception).
\<close>

theorem predictions_ignore_targets:
  assumes wf1: "wf_frame d1" and wf2: "wf_frame d2"
    and q1: "map_of (cols d1) ''question'' = Some qs"
    and q2: "map_of (cols d2) ''question'' = Some qs"
    and t1: "map_of (cols d1) ''target'' = Some ts1"
    and t2: "map_of (cols d2) ''target'' = Some ts2"
  shows "infer_batch p (questions # others) = infer_batch p (questions # others') \<and>
         map_sum id (\<lambda>v. map_of (cols v) ''predictions'')
           (snd (infer_dataset (p\<lparr>dataset := TaskDataset d1\<rparr>))) =
         map_sum id (\<lambda>v. map_of (cols v) ''predictions'')
           (snd (infer_dataset (p\<lparr>dataset := TaskDataset d2\<rparr>)))"
proof -
  let ?p1 = "p\<lparr>dataset := TaskDataset d1\<rparr>" and ?p2 = "p\<lparr>dataset := TaskDataset d2\<rparr>"
  have n: "length (index d1) = length (index d2)"
    using column_length [OF wf1 q1] column_length [OF wf2 q2] by simp
  have "infer_loop ?p1 bs [] = infer_loop ?p2 bs []"
    if "data_loader (TaskDataset d1) (batch_size p) = Inr bs" for bs
  proof -
    from that have pos: "0 < nat (batch_size p)"
      and bs: "bs = batch_sampler (nat (batch_size p)) (length (index d1))"
      by (auto simp: data_loader_def split: if_splits)
    have "\<forall>b\<in>set bs. b \<noteq> [] \<and> (\<forall>i\<in>set b. i < length (index d1))"
      using batch_sampler_range [OF pos] bs by blast
    then show ?thesis
      using n by (intro infer_loop_targets [OF q1 t1 q2 t2]) simp_all
  qed
  moreover have "data_loader (TaskDataset d1) (batch_size p) = data_loader (TaskDataset d2) (batch_size p)"
    using n by (simp add: data_loader_def)
  ultimately have "map_sum id (\<lambda>v. map_of (cols v) ''predictions'') (snd (infer_dataset ?p1)) =
      map_sum id (\<lambda>v. map_of (cols v) ''predictions'') (snd (infer_dataset ?p2))"
    unfolding infer_dataset_predictions [OF t1] infer_dataset_predictions [OF t2]
    using n by (simp split: sum.splits)
  then show ?thesis
    using infer_batch_questions_only by blast
qed

theorem predictions_ignore_targets_witness:
  "wf_frame example_clean \<and> wf_frame example_other_targets \<and>
   map_of (cols example_clean) ''question'' = Some [''Explain X'', ''Say hi'', ''Explain X''] \<and>
   map_of (cols example_other_targets) ''question''
     = Some [''Explain X'', ''Say hi'', ''Explain X''] \<and>
   map_of (cols example_clean) ''target'' = Some [''X is Y'', ''hi there'', ''X is Y''] \<and>
   map_of (cols example_other_targets) ''target''
     = Some [''a much longer reference answer'', [], ''no''] \<and>
   infer_batch toy_pipeline [[''Say hi''], [''hi there'']]
     = infer_batch toy_pipeline [[''Say hi''], [''a much longer reference answer'']] \<and>
   map_sum id (\<lambda>v. map_of (cols v) ''predictions'')
     (snd (infer_dataset (toy_pipeline\<lparr>dataset := TaskDataset example_clean\<rparr>))) =
   map_sum id (\<lambda>v. map_of (cols v) ''predictions'')
     (snd (infer_dataset (toy_pipeline\<lparr>dataset := TaskDataset example_other_targets\<rparr>)))"
proof -
  have wf1: "wf_frame example_clean"
    by (simp add: example_clean_def wf_frame_def column_names_def)
  have wf2: "wf_frame example_other_targets"
    by (simp add: example_other_targets_def wf_frame_def column_names_def)
  have q1: "map_of (cols example_clean) ''question''
      = Some [''Explain X'', ''Say hi'', ''Explain X'']"
    by (simp add: example_clean_def)
  have q2: "map_of (cols example_other_targets) ''question''
      = Some [''Explain X'', ''Say hi'', ''Explain X'']"
    by (simp add: example_other_targets_def)
  have t1: "map_of (cols example_clean) ''target'' = Some [''X is Y'', ''hi there'', ''X is Y'']"
    by (simp add: example_clean_def)
  have t2: "map_of (cols example_other_targets) ''target''
      = Some [''a much longer reference answer'', [], ''no'']"
    by (simp add: example_other_targets_def)
  show ?thesis
    using wf1 wf2 q1 q2 t1 t2
      predictions_ignore_targets [OF wf1 wf2 q1 q2 t1 t2, of toy_pipeline "[''Say hi'']"
        "[[''hi there'']]" "[[''a much longer reference answer'']]"]
    by (intro conjI) simp_all
qed

section \<open>Properties of infer_sample\<close>

lemma infer_sample_None_iff: "infer_sample p sample = Inr None \<longleftrightarrow> model p = None"
  by (auto simp: infer_sample_def and_then_def split: option.splits sum.splits list.splits)

text \<open>
  C5, evaluated on the small pipeline: for the sample (question, target) of a dataset
  row, \<open>infer_sample\<close> hands the tokenizer the question and the target as a batch of two
  texts, so the target takes part in the padding; the same row as a one-row dataset,
  where the collated batch holds the question alone, gets another prediction.
\<close>

theorem infer_sample_tokenizes_target:
  "infer_sample toy_pipeline [''Say hi'', ''hi there''] = Inr (Some ''xxx'') \<and>
   infer_batch toy_pipeline [[''Say hi'', ''hi there'']] = Inr [''xxx'', ''xxx''] \<and>
   infer_batch toy_pipeline [[''Say hi''], [''hi there'']] = Inr [''xxxxx''] \<and>
   snd (infer_dataset (toy_pipeline\<lparr>dataset := TaskDataset example_single\<rparr>)) =
     Inr \<lparr>index = [0], cols = [(''target'', [''hi there'']), (''predictions'', [''xxxxx''])]\<rparr>"
  by code_simp

section \<open>Properties of the importer\<close>

text \<open>
  C9: \<open>obtain\<close> asks the registry once, for the split \<open>train\<close> of the importer's
  dataset. When that call or the conversion raises, the same exception leaves \<open>obtain\<close>
  and the importer is unchanged; when the converted object is no DataFrame, \<open>TypeError\<close>
  is raised; otherwise the DataFrame is stored. In every case the outside world is as
  the one call of \<open>load_dataset\<close> left it: nothing is tried a second time.
\<close>

theorem obtain_outcomes:
  "(load_dataset reg (hf_name self) ''train'' w = (Inl e, w') \<longrightarrow>
      importer_obtain reg self w = ((self, Some e), w')) \<and>
   (load_dataset reg (hf_name self) ''train'' w = (Inr ds, w') \<and> to_pandas reg ds = Inl e \<longrightarrow>
      importer_obtain reg self w = ((self, Some e), w')) \<and>
   (load_dataset reg (hf_name self) ''train'' w = (Inr ds, w') \<and>
    to_pandas reg ds = Inr NotDataFrame \<longrightarrow>
      importer_obtain reg self w =
        ((self\<lparr>importer_raw_data := Some NotDataFrame\<rparr>, Some TypeError), w')) \<and>
   (load_dataset reg (hf_name self) ''train'' w = (Inr ds, w') \<and>
    to_pandas reg ds = Inr (DataFrame d) \<longrightarrow>
      importer_obtain reg self w =
        ((self\<lparr>importer_raw_data := Some (DataFrame d)\<rparr>, None), w')) \<and>
   snd (importer_obtain reg self w) = snd (load_dataset reg (hf_name self) ''train'' w)"
  by (auto simp: importer_obtain_def split: prod.splits sum.splits fetched.splits)

theorem obtain_outcomes_witness:
  "load_dataset flaky_registry ''tabular'' ''train'' 0
     = (Inl (LibraryError ''ConnectionError''), 1) \<and>
   importer_obtain flaky_registry \<lparr>hf_name = ''tabular'', importer_raw_data = None\<rparr> 0
     = ((\<lparr>hf_name = ''tabular'', importer_raw_data = None\<rparr>,
         Some (LibraryError ''ConnectionError'')), 1) \<and>
   load_dataset flaky_registry ''iterable'' ''train'' 1 = (Inr ''iterable'', 2) \<and>
   to_pandas flaky_registry ''iterable'' = Inr NotDataFrame \<and>
   importer_obtain flaky_registry \<lparr>hf_name = ''iterable'', importer_raw_data = None\<rparr> 1
     = ((\<lparr>hf_name = ''iterable'', importer_raw_data = Some NotDataFrame\<rparr>,
         Some TypeError), 2) \<and>
   load_dataset flaky_registry ''tabular'' ''train'' 1 = (Inr ''tabular'', 2) \<and>
   to_pandas flaky_registry ''tabular'' = Inr (DataFrame example_raw) \<and>
   importer_obtain flaky_registry \<lparr>hf_name = ''tabular'', importer_raw_data = None\<rparr> 1
     = ((\<lparr>hf_name = ''tabular'', importer_raw_data = Some (DataFrame example_raw)\<rparr>,
         None), 2)"
proof -
  let ?t = "\<lparr>hf_name = ''tabular'', importer_raw_data = None\<rparr> :: cell importer"
  let ?i = "\<lparr>hf_name = ''iterable'', importer_raw_data = None\<rparr> :: cell importer"
  have l0: "load_dataset flaky_registry (hf_name ?t) ''train'' 0
     = (Inl (LibraryError ''ConnectionError''), 1)"
    by (simp add: flaky_registry_def)
  have l1: "load_dataset flaky_registry (hf_name ?i) ''train'' 1 = (Inr ''iterable'', 2)"
    by (simp add: flaky_registry_def)
  have p1: "to_pandas flaky_registry ''iterable'' = Inr NotDataFrame"
    by (simp add: flaky_registry_def)
  have l2: "load_dataset flaky_registry (hf_name ?t) ''train'' 1 = (Inr ''tabular'', 2)"
    by (simp add: flaky_registry_def)
  have p2: "to_pandas flaky_registry ''tabular'' = Inr (DataFrame example_raw)"
    by (simp add: flaky_registry_def)
  show ?thesis
    using l0 l1 p1 l2 p2
      obtain_outcomes [of flaky_registry ?t 0 "LibraryError ''ConnectionError''" 1]
      obtain_outcomes [of flaky_registry ?i 1 _ 2 "''iterable''"]
      obtain_outcomes [of flaky_registry ?t 1 _ 2 "''tabular''" example_raw]
    by simp
qed

section \<open>Properties of the evaluator\<close>

lemma run_loop_filter:
  "run_loop lib d ms acc = run_loop lib d (filter (\<lambda>m. m = ''bleu'' \<or> m = ''rouge'') ms) acc"
  by (induction ms arbitrary: acc) (simp_all split: sum.splits)

lemma run_loop_dom:
  "run_loop lib d ms acc = Inr r \<Longrightarrow> dom r \<subseteq> dom acc \<union> {''bleu'', ''rouge''}"
proof (induction ms arbitrary: acc)
  case Nil
  then show ?case by auto
next
  case (Cons m ms)
  show ?case
  proof (cases "m = ''bleu''")
    case True
    with Cons.prems obtain sc where "score lib d ''bleu'' = Inr sc"
      "run_loop lib d ms (acc(''bleu'' \<mapsto> sc ''bleu'')) = Inr r"
      by (auto split: sum.splits)
    from Cons.IH [OF this(2)] show ?thesis by auto
  next
    case False
    show ?thesis
    proof (cases "m = ''rouge''")
      case True
      with Cons.prems obtain sc where "score lib d ''rouge'' = Inr sc"
        "run_loop lib d ms (acc(''rouge'' \<mapsto> sc ''rougeL'')) = Inr r"
        by (auto split: sum.splits)
      from Cons.IH [OF this(2)] show ?thesis by auto
    next
      case False
      with \<open>m \<noteq> ''bleu''\<close> Cons.prems have "run_loop lib d ms acc = Inr r"
        by simp
      from Cons.IH [OF this] show ?thesis .
    qed
  qed
qed

lemma run_loop_none_recognised:
  "\<forall>m\<in>set ms. m \<noteq> ''bleu'' \<and> m \<noteq> ''rouge'' \<Longrightarrow> run_loop lib d ms acc = Inr acc"
  by (induction ms arbitrary: acc) simp_all

text \<open>
  C7: the metrics that are neither \<open>bleu\<close> nor \<open>rouge\<close> have no effect on \<open>run\<close>: its
  outcome (the mapping returned or the exception raised) is the one for the request
  without them, the mapping returned has no key but \<open>bleu\<close> and \<open>rouge\<close>, and a request
  of unrecognised metrics only, on a readable file, returns the empty mapping.
\<close>

theorem run_skips_unrecognised:
  "run lib self =
     run lib (self\<lparr>metrics := filter (\<lambda>m. m = ''bleu'' \<or> m = ''rouge'') (metrics self)\<rparr>) \<and>
   (\<forall>r. run lib self = Inr r \<longrightarrow> dom r \<subseteq> {''bleu'', ''rouge''}) \<and>
   (\<forall>csv d. read_csv lib (data_path self) = Inr csv \<and>
            drop_columns [''Unnamed: 0''] csv = Inr d \<and>
            (\<forall>m\<in>set (metrics self). m \<noteq> ''bleu'' \<and> m \<noteq> ''rouge'') \<longrightarrow>
            run lib self = Inr Map.empty)"
proof (intro conjI allI impI)
  show "run lib self =
     run lib (self\<lparr>metrics := filter (\<lambda>m. m = ''bleu'' \<or> m = ''rouge'') (metrics self)\<rparr>)"
    using run_loop_filter [of lib _ "metrics self" Map.empty]
    by (simp add: run_def and_then_def split: sum.splits)
next
  fix r
  assume "run lib self = Inr r"
  then obtain d where "run_loop lib d (metrics self) Map.empty = Inr r"
    by (auto simp: run_def and_then_def split: sum.splits)
  from run_loop_dom [OF this] show "dom r \<subseteq> {''bleu'', ''rouge''}"
    by simp
next
  fix csv d
  assume "read_csv lib (data_path self) = Inr csv \<and>
            drop_columns [''Unnamed: 0''] csv = Inr d \<and>
            (\<forall>m\<in>set (metrics self). m \<noteq> ''bleu'' \<and> m \<noteq> ''rouge'')"
  then show "run lib self = Inr Map.empty"
    by (simp add: run_def run_loop_none_recognised)
qed




theorem run_skips_unrecognised_witness:
  "read_csv toy_library (data_path \<lparr>data_path = ''predictions.csv'', metrics = [''squad'', ''f1'']\<rparr>)
     = Inr example_csv \<and>
   (\<exists>d. drop_columns [''Unnamed: 0''] example_csv = Inr d) \<and>
   run toy_library \<lparr>data_path = ''predictions.csv'', metrics = [''squad'', ''f1'']\<rparr>
     = Inr Map.empty \<and>
   run toy_library \<lparr>data_path = ''predictions.csv'', metrics = [''squad'', ''bleu'', ''f1'']\<rparr>
     = run toy_library \<lparr>data_path = ''predictions.csv'', metrics = [''bleu'']\<rparr>"
proof -
  let ?e = "\<lparr>data_path = ''predictions.csv'', metrics = [''squad'', ''f1'']\<rparr>"
  let ?e2 = "\<lparr>data_path = ''predictions.csv'', metrics = [''squad'', ''bleu'', ''f1'']\<rparr>"
  have r: "read_csv toy_library (data_path ?e) = Inr example_csv"
    by (simp add: toy_library_def)
  have "''Unnamed: 0'' \<in> set (column_names example_csv)"
    by (simp add: example_csv_def column_names_def)
  then have "drop_columns [''Unnamed: 0''] example_csv =
      Inr (example_csv\<lparr>cols := filter (\<lambda>cv. fst cv \<notin> set [''Unnamed: 0'']) (cols example_csv)\<rparr>)"
    by (intro drop_columns_Inr) simp
  then obtain d where d: "drop_columns [''Unnamed: 0''] example_csv = Inr d"
    by blast
  have "run toy_library ?e = Inr Map.empty"
    using run_skips_unrecognised [of toy_library ?e] r d by auto
  moreover have "run toy_library ?e2 =
      run toy_library \<lparr>data_path = ''predictions.csv'', metrics = [''bleu'']\<rparr>"
    using run_skips_unrecognised [of toy_library ?e2] by simp
  ultimately show ?thesis
    using r d by blast
qed




section \<open>Properties of analyze\<close>

lemma count_repeats:
  "length (filter id (map (\<lambda>k. f k \<in> set (map f [0..<k])) [0..<n])) = n - card (f ` {..<n})"
proof (induction n)
  case 0
  show ?case by simp
next
  case (Suc n)
  have le: "card (f ` {..<n}) \<le> n"
    using card_image_le [of "{..<n}" f] by simp
  have img: "f ` {..<Suc n} = insert (f n) (f ` {..<n})"
    by (simp add: lessThan_Suc)
  show ?case
  proof (cases "f n \<in> f ` {..<n}")
    case True
    then have "card (f ` {..<Suc n}) = card (f ` {..<n})"
      by (simp add: img insert_absorb)
    with True Suc le show ?thesis
      by (simp add: lessThan_atLeast0)
  next
    case False
    then have "card (f ` {..<Suc n}) = Suc (card (f ` {..<n}))"
      by (simp add: img)
    with False Suc show ?thesis
      by (simp add: lessThan_atLeast0)
  qed
qed

lemma map_of_map_values:
  "map_of (map (\<lambda>cv. (fst cv, g (snd cv))) cs) c = map_option g (map_of cs c)"
  by (induction cs) auto

lemma select_least:
  assumes "\<forall>x\<in>set xs. \<exists>s. x = Str s"
  shows "\<exists>s. select_by_len (<) (Str b) (length b) xs = Inr (Str s) \<and>
             Str s \<in> set (Str b # xs) \<and>
             (\<forall>t. Str t \<in> set (Str b # xs) \<longrightarrow> length s \<le> length t)"
  using assms
proof (induction xs arbitrary: b)
  case Nil
  show ?case by simp
next
  case (Cons x xs)
  then obtain u where u: "x = Str u" by auto
  from Cons.prems have rest: "\<forall>x\<in>set xs. \<exists>s. x = Str s" by simp
  show ?case
  proof (cases "length u < length b")
    case True
    from Cons.IH [OF rest, of u] obtain s where
      s: "select_by_len (<) (Str u) (length u) xs = Inr (Str s)" "Str s \<in> set (Str u # xs)"
        "\<forall>t. Str t \<in> set (Str u # xs) \<longrightarrow> length s \<le> length t"
      by blast
    from s(3) have "length s \<le> length u" by simp
    with True s show ?thesis
      using u by (intro exI [of _ s]) auto
  next
    case False
    from Cons.IH [OF rest, of b] obtain s where
      s: "select_by_len (<) (Str b) (length b) xs = Inr (Str s)" "Str s \<in> set (Str b # xs)"
        "\<forall>t. Str t \<in> set (Str b # xs) \<longrightarrow> length s \<le> length t"
      by blast
    from s(3) have "length s \<le> length b" by simp
    with False s show ?thesis
      using u by (intro exI [of _ s]) auto
  qed
qed

lemma select_greatest:
  assumes "\<forall>x\<in>set xs. \<exists>s. x = Str s"
  shows "\<exists>s. select_by_len (>) (Str b) (length b) xs = Inr (Str s) \<and>
             Str s \<in> set (Str b # xs) \<and>
             (\<forall>t. Str t \<in> set (Str b # xs) \<longrightarrow> length t \<le> length s)"
  using assms
proof (induction xs arbitrary: b)
  case Nil
  show ?case by simp
next
  case (Cons x xs)
  then obtain u where u: "x = Str u" by auto
  from Cons.prems have rest: "\<forall>x\<in>set xs. \<exists>s. x = Str s" by simp
  show ?case
  proof (cases "length u > length b")
    case True
    from Cons.IH [OF rest, of u] obtain s where
      s: "select_by_len (>) (Str u) (length u) xs = Inr (Str s)" "Str s \<in> set (Str u # xs)"
        "\<forall>t. Str t \<in> set (Str u # xs) \<longrightarrow> length t \<le> length s"
      by blast
    from s(3) have "length u \<le> length s" by simp
    with True s show ?thesis
      using u by (intro exI [of _ s]) auto
  next
    case False
    from Cons.IH [OF rest, of b] obtain s where
      s: "select_by_len (>) (Str b) (length b) xs = Inr (Str s)" "Str s \<in> set (Str b # xs)"
        "\<forall>t. Str t \<in> set (Str b # xs) \<longrightarrow> length t \<le> length s"
      by blast
    from s(3) have "length b \<le> length s" by simp
    with False s show ?thesis
      using u by (intro exI [of _ s]) auto
  qed
qed

lemma min_key_len_least:
  assumes "xs \<noteq> []" "\<forall>x\<in>set xs. \<exists>s. x = Str s"
  shows "\<exists>s. min_key_len xs = Inr (Str s) \<and> Str s \<in> set xs \<and>
             (\<forall>t. Str t \<in> set xs \<longrightarrow> length s \<le> length t)"
proof -
  from assms obtain b rest where xs: "xs = Str b # rest"
    by (cases xs) auto
  with assms(2) have "\<forall>x\<in>set rest. \<exists>s. x = Str s" by simp
  from select_least [OF this, of b] show ?thesis
    by (simp add: min_key_len_def xs)
qed

lemma max_key_len_greatest:
  assumes "xs \<noteq> []" "\<forall>x\<in>set xs. \<exists>s. x = Str s"
  shows "\<exists>s. max_key_len xs = Inr (Str s) \<and> Str s \<in> set xs \<and>
             (\<forall>t. Str t \<in> set xs \<longrightarrow> length t \<le> length s)"
proof -
  from assms obtain b rest where xs: "xs = Str b # rest"
    by (cases xs) auto
  with assms(2) have "\<forall>x\<in>set rest. \<exists>s. x = Str s" by simp
  from select_greatest [OF this, of b] show ?thesis
    by (simp add: max_key_len_def xs)
qed

lemma isna_after_replace:
  "isna_sum_sum (frame_replace (Str []) NA d) =
     sum_list (map (\<lambda>cv. length (filter (\<lambda>c. c = NA \<or> c = Str []) (snd cv))) (cols d))"
proof -
  have "length (filter (\<lambda>c. c = NA) (map (\<lambda>c. if c = Str [] then NA else c) vs)) =
        length (filter (\<lambda>c. c = NA \<or> c = Str []) vs)" for vs :: "cell list"
    by (induction vs) auto
  then show ?thesis
    by (simp add: isna_sum_sum_def frame_replace_def comp_def)
qed

lemma row_values_replace:
  assumes "wf_frame d" "k < length (index d)"
  shows "row_values (frame_replace old new d) k =
         map (\<lambda>c. if c = old then new else c) (row_values d k)"
proof -
  have "length (snd cv) = length (index d)" if "cv \<in> set (cols d)" for cv
    using assms(1) that by (simp add: wf_frame_def list_all_iff)
  then show ?thesis
    using assms(2) by (simp add: row_values_def frame_replace_def comp_def)
qed

lemma kept_by_dropna:
  assumes "wf_frame d" "k < length (index d)"
  shows "NA \<notin> set (row_values (frame_replace (Str []) NA d) k) \<longleftrightarrow> no_empty_cell d k"
  unfolding row_values_replace [OF assms] no_empty_cell_def list_all_iff
  by (auto split: if_splits)


lemma instructions_without_empty_rows:
  assumes wf: "wf_frame d"
    and ins: "map_of (cols d) ''instruction'' = Some ins"
    and free: "''index'' \<notin> set (column_names d) \<or> ''level_0'' \<notin> set (column_names d)"
  shows "\<exists>w. reset_index (dropna (frame_replace (Str []) NA d)) = Inr w \<and>
             getcol w ''instruction'' =
               Inr (map ((!) ins) (filter (no_empty_cell d) [0..<length (index d)]))"
proof -
  define n where "n = length (index d)"
  define f where "f = (\<lambda>c. if c = Str [] then NA else c)"
  define rep where "rep = frame_replace (Str []) NA d"
  define keep where "keep = filter (\<lambda>k. NA \<notin> set (row_values rep k)) [0..<n]"
  define dn where "dn = dropna rep"
  have idx: "index rep = index d"
    by (simp add: rep_def frame_replace_def)
  have cols_rep: "cols rep = map (\<lambda>cv. (fst cv, map f (snd cv))) (cols d)"
    by (simp add: rep_def frame_replace_def f_def)
  have cols_dn: "cols dn = map (\<lambda>cv. (fst cv, map ((!) (snd cv)) keep)) (cols rep)"
    by (simp add: dn_def dropna_def keep_def idx n_def Let_def)
  have keep: "keep = filter (no_empty_cell d) [0..<n]"
    unfolding keep_def rep_def
    by (rule filter_cong) (simp_all add: kept_by_dropna [OF wf] n_def)
  have names: "column_names dn = column_names d"
    by (simp add: column_names_def cols_dn cols_rep comp_def)
  define name where "name = (if ''index'' \<notin> set (column_names dn) then ''index'' else ''level_0'')"
  have fresh: "name \<notin> set (column_names dn)"
    using free by (auto simp: name_def names)
  define w where "w = dn\<lparr>index := map int [0..<length (index dn)],
                         cols := (name, map Num (index dn)) # cols dn\<rparr>"
  have reset: "reset_index dn = Inr w"
    using fresh by (simp add: reset_index_def name_def [symmetric] w_def Let_def)
  have "name \<noteq> ''instruction''"
    by (simp add: name_def)
  then have "map_of (cols w) ''instruction'' = map_of (cols dn) ''instruction''"
    by (simp add: w_def)
  also have "\<dots> = map_option (\<lambda>vs. map ((!) vs) keep) (map_of (cols rep) ''instruction'')"
    unfolding cols_dn by (rule map_of_map_values)
  also have "map_of (cols rep) ''instruction'' = map_option (map f) (map_of (cols d) ''instruction'')"
    unfolding cols_rep by (rule map_of_map_values)
  also have "map_option (\<lambda>vs. map ((!) vs) keep) (map_option (map f) (map_of (cols d) ''instruction''))
      = Some (map ((!) (map f ins)) keep)"
    by (simp add: ins)
  finally have col: "getcol w ''instruction'' = Inr (map ((!) (map f ins)) keep)"
    by (simp add: getcol_def)
  have len: "length ins = n"
    using column_length [OF wf ins] by (simp add: n_def)
  have "(instruction, ins) \<in> set (cols d)" if "instruction = ''instruction''" for instruction
    using ins that by (simp add: map_of_SomeD)
  then have member: "ins ! k \<in> set (row_values d k)" for k
    by (force simp: row_values_def)
  have "map f ins ! k = ins ! k" if "k \<in> set keep" for k
  proof -
    from that have "k < n" "no_empty_cell d k"
      by (simp_all add: keep)
    with member [of k] have "ins ! k \<noteq> Str []"
      by (auto simp: no_empty_cell_def list_all_iff)
    with \<open>k < n\<close> show ?thesis
      by (simp add: len f_def)
  qed
  then have "map ((!) (map f ins)) keep = map ((!) ins) keep"
    by simp
  with col have "getcol w ''instruction'' = Inr (map ((!) ins) (filter (no_empty_cell d) [0..<n]))"
    by (simp add: keep)
  with reset show ?thesis
    unfolding dn_def rep_def n_def by blast
qed

lemma count_duplicated:
  assumes "index d \<noteq> []" "cols d \<noteq> []"
  shows "length (filter id (duplicated d)) =
         length (index d) - card (row_values d ` {..<length (index d)})"
  using assms count_repeats [of "row_values d" "length (index d)"]
  by (simp add: duplicated_def)

text \<open>
  C2, as the code has it: for a raw table with an instruction column that has at least
  one row without an empty cell (the instruction of such a row being a string, and the
  names \<open>index\<close> and \<open>level_0\<close> not both taken by columns), \<open>analyze\<close> returns the report
  of six entries: the row count, the column count, the number of rows that repeat an
  earlier row, the number of cells that are missing or the empty string, and the least
  and the greatest length of an instruction among the rows without an empty cell.
\<close>

theorem analyze_report:
  assumes wf: "wf_frame (raw_data self)"
    and ins: "map_of (cols (raw_data self)) ''instruction'' = Some ins"
    and is_str: "\<forall>k<length (index (raw_data self)).
                 no_empty_cell (raw_data self) k \<longrightarrow> (\<exists>s. ins ! k = Str s)"
    and free: "''index'' \<notin> set (column_names (raw_data self)) \<or>
               ''level_0'' \<notin> set (column_names (raw_data self))"
    and some: "\<exists>k<length (index (raw_data self)). no_empty_cell (raw_data self) k"
  shows "\<exists>shortest longest.
           analyze self =
             Inr [(''dataset_number_of_samples'', length (index (raw_data self))),
                  (''dataset_columns'', length (cols (raw_data self))),
                  (''dataset_duplicates'',
                     length (index (raw_data self)) -
                     card (row_values (raw_data self) ` {..<length (index (raw_data self))})),
                  (''dataset_empty_rows'',
                     sum_list (map (\<lambda>cv. length (filter (\<lambda>c. c = NA \<or> c = Str []) (snd cv)))
                                 (cols (raw_data self)))),
                  (''dataset_sample_min_len'', length shortest),
                  (''dataset_sample_max_len'', length longest)] \<and>
           (\<exists>k<length (index (raw_data self)).
              no_empty_cell (raw_data self) k \<and> ins ! k = Str shortest) \<and>
           (\<exists>k<length (index (raw_data self)).
              no_empty_cell (raw_data self) k \<and> ins ! k = Str longest) \<and>
           (\<forall>k<length (index (raw_data self)). \<forall>s.
              no_empty_cell (raw_data self) k \<and> ins ! k = Str s \<longrightarrow>
              length shortest \<le> length s \<and> length s \<le> length longest)"
proof -
  define d where "d = raw_data self"
  define n where "n = length (index d)"
  define vals where "vals = map ((!) ins) (filter (no_empty_cell d) [0..<n])"
  note wf' = wf [folded d_def] and ins' = ins [folded d_def]
  have in_vals: "x \<in> set vals \<longleftrightarrow> (\<exists>k<n. no_empty_cell d k \<and> x = ins ! k)" for x
    by (auto simp: vals_def)
  from instructions_without_empty_rows [OF wf' ins' free [folded d_def]] obtain w where
    w: "reset_index (dropna (frame_replace (Str []) NA d)) = Inr w"
      "getcol w ''instruction'' = Inr vals"
    unfolding vals_def n_def by blast
  have nonempty: "vals \<noteq> []"
    using some in_vals unfolding d_def [symmetric] n_def [symmetric]
    by (metis empty_iff empty_set)
  have strs: "\<forall>x\<in>set vals. \<exists>s. x = Str s"
    using is_str in_vals unfolding d_def [symmetric] n_def [symmetric] by auto
  from min_key_len_least [OF nonempty strs] obtain shortest where
    mn: "min_key_len vals = Inr (Str shortest)" "Str shortest \<in> set vals"
      "\<forall>t. Str t \<in> set vals \<longrightarrow> length shortest \<le> length t"
    by blast
  from max_key_len_greatest [OF nonempty strs] obtain longest where
    mx: "max_key_len vals = Inr (Str longest)" "Str longest \<in> set vals"
      "\<forall>t. Str t \<in> set vals \<longrightarrow> length t \<le> length longest"
    by blast
  have rows: "index d \<noteq> []"
    using some unfolding d_def [symmetric] by auto
  have columns: "cols d \<noteq> []"
    using ins' by auto
  have report: "analyze self =
      Inr [(''dataset_number_of_samples'', n),
           (''dataset_columns'', length (cols d)),
           (''dataset_duplicates'', n - card (row_values d ` {..<n})),
           (''dataset_empty_rows'',
              sum_list (map (\<lambda>cv. length (filter (\<lambda>c. c = NA \<or> c = Str []) (snd cv))) (cols d))),
           (''dataset_sample_min_len'', length shortest),
           (''dataset_sample_max_len'', length longest)]"
    using w mn(1) mx(1) count_duplicated [OF rows columns]
    by (simp add: analyze_def d_def [symmetric] shape_def isna_after_replace n_def)
  have least: "\<exists>k<n. no_empty_cell d k \<and> ins ! k = Str shortest"
    using mn(2) in_vals by auto
  have greatest: "\<exists>k<n. no_empty_cell d k \<and> ins ! k = Str longest"
    using mx(2) in_vals by auto
  have bounds: "\<forall>k<n. \<forall>s. no_empty_cell d k \<and> ins ! k = Str s \<longrightarrow>
              length shortest \<le> length s \<and> length s \<le> length longest"
    using mn(3) mx(3) in_vals by metis
  show ?thesis
    using report least greatest bounds unfolding d_def n_def by blast
qed


theorem analyze_report_witness:
  "wf_frame (raw_data example_preprocessor) \<and>
   map_of (cols (raw_data example_preprocessor)) ''instruction''
     = Some [Str ''Explain X'', Str ''Say hi'', Str ''Explain X'', Str ''Sum 1 and 2''] \<and>
   ''index'' \<notin> set (column_names (raw_data example_preprocessor)) \<and>
   length (index (raw_data example_preprocessor)) = 4 \<and>
   filter (no_empty_cell (raw_data example_preprocessor)) [0, 1, 2, 3] = [0, 2, 3] \<and>
   analyze example_preprocessor =
     Inr [(''dataset_number_of_samples'', 4), (''dataset_columns'', 4),
          (''dataset_duplicates'', 1), (''dataset_empty_rows'', 1),
          (''dataset_sample_min_len'', 9), (''dataset_sample_max_len'', 11)] \<and>
   length (index (raw_data example_preprocessor)) -
     card (row_values (raw_data example_preprocessor) `
             {..<length (index (raw_data example_preprocessor))}) = 1 \<and>
   (\<exists>shortest longest. length shortest = 9 \<and> length longest = 11 \<and>
      (\<exists>k<length (index (raw_data example_preprocessor)).
         no_empty_cell (raw_data example_preprocessor) k \<and>
         [Str ''Explain X'', Str ''Say hi'', Str ''Explain X'', Str ''Sum 1 and 2''] ! k
           = Str shortest) \<and>
      (\<exists>k<length (index (raw_data example_preprocessor)).
         no_empty_cell (raw_data example_preprocessor) k \<and>
         [Str ''Explain X'', Str ''Say hi'', Str ''Explain X'', Str ''Sum 1 and 2''] ! k
           = Str longest))"
proof -
  define raw where "raw = raw_data example_preprocessor"
  define ins where
    "ins = [Str ''Explain X'', Str ''Say hi'', Str ''Explain X'', Str ''Sum 1 and 2'']"
  have wf: "wf_frame raw"
    by (simp add: raw_def example_preprocessor_def example_raw_def wf_frame_def column_names_def)
  have ins: "map_of (cols raw) ''instruction'' = Some ins"
    by (simp add: raw_def ins_def example_preprocessor_def example_raw_def)
  have noidx: "''index'' \<notin> set (column_names raw)"
    by (simp add: raw_def example_preprocessor_def example_raw_def column_names_def)
  then have free: "''index'' \<notin> set (column_names raw) \<or> ''level_0'' \<notin> set (column_names raw)"
    by (rule disjI1)
  have n: "length (index raw) = 4"
    by (simp add: raw_def example_preprocessor_def example_raw_def)
  have len: "length ins = 4"
    by (simp add: ins_def)
  have all_str: "\<exists>s. c = Str s" if "c \<in> set ins" for c
    using that by (auto simp: ins_def)
  have is_str: "\<forall>k<length (index raw). no_empty_cell raw k \<longrightarrow> (\<exists>s. ins ! k = Str s)"
  proof (intro allI impI)
    fix k
    assume "k < length (index raw)"
    then have "k < length ins"
      by (simp add: n len)
    then have "ins ! k \<in> set ins"
      by (rule nth_mem)
    then show "\<exists>s. ins ! k = Str s"
      by (rule all_str)
  qed
  have full: "filter (no_empty_cell (raw_data example_preprocessor)) [0, 1, 2, 3] = [0, 2, 3]"
    by code_simp
  have "no_empty_cell (raw_data example_preprocessor) 0"
    by code_simp
  then have "no_empty_cell raw 0"
    by (simp add: raw_def)
  moreover have "0 < length (index raw)"
    by (simp add: n)
  ultimately have "0 < length (index raw) \<and> no_empty_cell raw 0"
    by simp
  then have some: "\<exists>k<length (index raw). no_empty_cell raw k"
    by (rule exI)
  have run: "analyze example_preprocessor =
     Inr [(''dataset_number_of_samples'', 4), (''dataset_columns'', 4),
          (''dataset_duplicates'', 1), (''dataset_empty_rows'', 1),
          (''dataset_sample_min_len'', 9), (''dataset_sample_max_len'', 11)]"
    by code_simp
  note ex = analyze_report [of example_preprocessor, folded raw_def, OF wf ins is_str free some]
  from ex obtain shortest where "\<exists>longest.
           analyze example_preprocessor =
             Inr [(''dataset_number_of_samples'', length (index raw)),
                  (''dataset_columns'', length (cols raw)),
                  (''dataset_duplicates'',
                     length (index raw) - card (row_values raw ` {..<length (index raw)})),
                  (''dataset_empty_rows'',
                     sum_list (map (\<lambda>cv. length (filter (\<lambda>c. c = NA \<or> c = Str []) (snd cv)))
                                 (cols raw))),
                  (''dataset_sample_min_len'', length shortest),
                  (''dataset_sample_max_len'', length longest)] \<and>
           (\<exists>k<length (index raw). no_empty_cell raw k \<and> ins ! k = Str shortest) \<and>
           (\<exists>k<length (index raw). no_empty_cell raw k \<and> ins ! k = Str longest) \<and>
           (\<forall>k<length (index raw). \<forall>s. no_empty_cell raw k \<and> ins ! k = Str s \<longrightarrow>
              length shortest \<le> length s \<and> length s \<le> length longest)" ..
  then obtain longest where all:
          "analyze example_preprocessor =
             Inr [(''dataset_number_of_samples'', length (index raw)),
                  (''dataset_columns'', length (cols raw)),
                  (''dataset_duplicates'',
                     length (index raw) - card (row_values raw ` {..<length (index raw)})),
                  (''dataset_empty_rows'',
                     sum_list (map (\<lambda>cv. length (filter (\<lambda>c. c = NA \<or> c = Str []) (snd cv)))
                                 (cols raw))),
                  (''dataset_sample_min_len'', length shortest),
                  (''dataset_sample_max_len'', length longest)] \<and>
           (\<exists>k<length (index raw). no_empty_cell raw k \<and> ins ! k = Str shortest) \<and>
           (\<exists>k<length (index raw). no_empty_cell raw k \<and> ins ! k = Str longest) \<and>
           (\<forall>k<length (index raw). \<forall>s. no_empty_cell raw k \<and> ins ! k = Str s \<longrightarrow>
              length shortest \<le> length s \<and> length s \<le> length longest)" ..
  note r = all [THEN conjunct1]
    and least = all [THEN conjunct2, THEN conjunct1]
    and greatest = all [THEN conjunct2, THEN conjunct2, THEN conjunct1]
  have eq: "[(''dataset_number_of_samples'', length (index raw)),
                  (''dataset_columns'', length (cols raw)),
                  (''dataset_duplicates'',
                     length (index raw) - card (row_values raw ` {..<length (index raw)})),
                  (''dataset_empty_rows'',
                     sum_list (map (\<lambda>cv. length (filter (\<lambda>c. c = NA \<or> c = Str []) (snd cv)))
                                 (cols raw))),
                  (''dataset_sample_min_len'', length shortest),
                  (''dataset_sample_max_len'', length longest)] =
         [(''dataset_number_of_samples'', 4), (''dataset_columns'', 4),
          (''dataset_duplicates'', 1), (''dataset_empty_rows'', 1),
          (''dataset_sample_min_len'', 9), (''dataset_sample_max_len'', 11)]"
    using r run by (simp only: sum.inject)
  then have dups: "length (index raw) - card (row_values raw ` {..<length (index raw)}) = 1"
    and mn: "length shortest = 9" and mx: "length longest = 11"
    by auto
  have "\<exists>shortest longest. length shortest = 9 \<and> length longest = 11 \<and>
      (\<exists>k<length (index raw). no_empty_cell raw k \<and> ins ! k = Str shortest) \<and>
      (\<exists>k<length (index raw). no_empty_cell raw k \<and> ins ! k = Str longest)"
    by (intro exI [of _ shortest] exI [of _ longest] conjI mn mx least greatest)
  then show ?thesis
    unfolding raw_def [symmetric] ins_def [symmetric]
    by (intro conjI wf ins noidx n full [folded raw_def] run dups)
qed

text \<open>
  C2 as stated fails on a non-empty raw table in which every row has an empty cell:
  no instruction is left to take the minimum of, and \<open>analyze\<close> raises \<open>ValueError\<close>
  instead of returning a report.
\<close>

theorem analyze_all_rows_empty_counterexample:
  "index example_one_row \<noteq> [] \<and>
   column_names example_one_row = [''instruction'', ''input'', ''output'', ''text''] \<and>
   analyze \<lparr>raw_data = example_one_row, data = None\<rparr> = Inl ValueError"
  by code_simp



end
